theory Spec2Isabelle
  imports Main
begin

section \<open>Dates, date strings and numbers\<close>

text \<open>
  A JavaScript \<^verbatim>\<open>Date\<close> holding midnight of a calendar day is identified with the number
  of that day (day 0 is 1970-01-01, a Thursday); \<open>InvalidDate\<close> is the \<^verbatim>\<open>Date\<close> whose time
  value is NaN. The local time zone is taken to be UTC without daylight saving, so that
  \<^verbatim>\<open>setDate(getDate() + k)\<close> moves by exactly \<open>k\<close> days and a date-only string and its
  \<^verbatim>\<open>Date\<close> name the same day.

  A date-string field is \<open>NoDate\<close> (\<^verbatim>\<open>undefined\<close> or the empty string, both falsy),
  \<open>Ymd n\<close> (the \<^verbatim>\<open>YYYY-MM-DD\<close> string of day \<open>n\<close>) or \<open>NaNStr\<close> (the string
  \<^verbatim>\<open>NaN-NaN-NaN\<close> that formatting an invalid date produces).
\<close>

datatype date = Day int | InvalidDate

datatype datestr = NoDate | Ymd int | NaNStr

datatype jsnum = Num int | NaN

text \<open>\<^verbatim>\<open>new Date(str)\<close>\<close>

fun newDate :: "datestr \<Rightarrow> date" where
  "newDate (Ymd n) = Day n"
| "newDate NoDate = InvalidDate"
| "newDate NaNStr = InvalidDate"

text \<open>Truthiness of a date-string field, as tested by \<^verbatim>\<open>str ? a : b\<close> and \<^verbatim>\<open>!str\<close>.\<close>

fun truthy :: "datestr \<Rightarrow> bool" where
  "truthy NoDate = False"
| "truthy (Ymd n) = True"
| "truthy NaNStr = True"

text \<open>\<^verbatim>\<open>d.setDate(d.getDate() + k)\<close>, returning the moved date.\<close>

fun plusDays :: "date \<Rightarrow> int \<Rightarrow> date" where
  "plusDays (Day n) k = Day (n + k)"
| "plusDays InvalidDate k = InvalidDate"

text \<open>Comparison of \<^verbatim>\<open>getTime()\<close> values: every comparison with NaN is false.\<close>

fun timeLe :: "date \<Rightarrow> date \<Rightarrow> bool" where
  "timeLe (Day a) (Day b) = (a \<le> b)"
| "timeLe _ _ = False"

section \<open>Date helpers\<close>

fun isWeekend :: "date \<Rightarrow> bool" where
  "isWeekend (Day n) = (let day = (n + 4) mod 7 in day = 0 \<or> day = 6)"
| "isWeekend InvalidDate = False"

fun normalizeDateStr :: "date \<Rightarrow> datestr" where
  "normalizeDateStr (Day n) = Ymd n"
| "normalizeDateStr InvalidDate = NaNStr"

text \<open>
  The global holiday list is the list of the day numbers of its date strings. The holiday
  input keeps only lines of the shape \<^verbatim>\<open>dddd-dd-dd\<close>, so \<^verbatim>\<open>NaN-NaN-NaN\<close> is never a
  member, and a line that names no real day equals no normalised date.
\<close>

fun isHoliday :: "int list \<Rightarrow> date \<Rightarrow> bool" where
  "isHoliday globalHolidays date =
     (case normalizeDateStr date of Ymd n \<Rightarrow> n \<in> set globalHolidays | _ \<Rightarrow> False)"

fun isWorkingDay :: "int list \<Rightarrow> date \<Rightarrow> bool" where
  "isWorkingDay globalHolidays date = (\<not> isWeekend date \<and> \<not> isHoliday globalHolidays date)"

text \<open>
  Measures for the calendar loops: the number of days to step, backward or forward, from a
  date to the nearest working day. They are used in the termination proofs only.
\<close>

definition gapBackward :: "int list \<Rightarrow> date \<Rightarrow> nat" where
  "gapBackward hs d = (LEAST k. isWorkingDay hs (plusDays d (- int k)))"

definition gapForward :: "int list \<Rightarrow> date \<Rightarrow> nat" where
  "gapForward hs d = (LEAST k. isWorkingDay hs (plusDays d (int k)))"

lemma holidays_bounded: "\<exists>b::int. \<forall>h \<in> set hs. - b < h \<and> h < b"
proof (induction hs)
  case Nil
  show ?case by simp
next
  case (Cons h hs)
  then obtain b where b: "\<forall>x \<in> set hs. - b < x \<and> x < b" by blast
  have "\<forall>x \<in> set (h # hs). - (max b (\<bar>h\<bar> + 1)) < x \<and> x < max b (\<bar>h\<bar> + 1)"
    using b by auto
  then show ?case by blast
qed

lemma working_far_future: "\<exists>k::nat. isWorkingDay hs (plusDays d (int k))"
proof (cases d)
  case InvalidDate
  then show ?thesis by simp
next
  case (Day x)
  obtain b where b: "\<forall>h \<in> set hs. - b < h \<and> h < b"
    using holidays_bounded by blast
  define m where "m = max x b"
  define y where "y = m + (4 - m) mod 7"
  have wd: "(y + 4) mod 7 = 1" unfolding y_def by presburger
  have "m \<le> y" unfolding y_def by simp
  then have ge: "x \<le> y" and gb: "b \<le> y" unfolding m_def by simp_all
  have nh: "y \<notin> set hs" using b gb by auto
  have "isWorkingDay hs (Day y)" using wd nh by simp
  moreover have "Day y = plusDays d (int (nat (y - x)))" using ge Day by simp
  ultimately show ?thesis by metis
qed

lemma working_far_past: "\<exists>k::nat. isWorkingDay hs (plusDays d (- int k))"
proof (cases d)
  case InvalidDate
  then show ?thesis by simp
next
  case (Day x)
  obtain b where b: "\<forall>h \<in> set hs. - b < h \<and> h < b"
    using holidays_bounded by blast
  define m where "m = min x (- b)"
  define y where "y = m - (m + 3) mod 7"
  have wd: "(y + 4) mod 7 = 1" unfolding y_def by presburger
  have "y \<le> m" unfolding y_def by simp
  then have le: "y \<le> x" and lb: "y \<le> - b" unfolding m_def by simp_all
  have nh: "y \<notin> set hs" using b lb by auto
  have "isWorkingDay hs (Day y)" using wd nh by simp
  moreover have "Day y = plusDays d (- int (nat (x - y)))" using le Day by simp
  ultimately show ?thesis by metis
qed

lemma plusDays_plusDays: "plusDays (plusDays d a) b = plusDays d (a + b)"
  by (cases d) simp_all

lemma gapBackward_step:
  assumes "\<not> isWorkingDay hs d"
  shows "gapBackward hs (plusDays d (- 1)) < gapBackward hs d"
proof -
  let ?P = "\<lambda>k. isWorkingDay hs (plusDays d (- int k))"
  have P: "?P (gapBackward hs d)"
    unfolding gapBackward_def using working_far_past by (rule LeastI_ex)
  have "gapBackward hs d \<noteq> 0"
  proof
    assume "gapBackward hs d = 0"
    with P have "isWorkingDay hs (plusDays d 0)" by simp
    then show False using assms by (cases d) simp_all
  qed
  then obtain m where m: "gapBackward hs d = Suc m" by (cases "gapBackward hs d") auto
  have "isWorkingDay hs (plusDays (plusDays d (- 1)) (- int m))"
    using P m by (simp add: plusDays_plusDays)
  then have "gapBackward hs (plusDays d (- 1)) \<le> m"
    unfolding gapBackward_def by (rule Least_le)
  then show ?thesis using m by simp
qed

lemma gapForward_step:
  assumes "\<not> isWorkingDay hs d"
  shows "gapForward hs (plusDays d 1) < gapForward hs d"
proof -
  let ?P = "\<lambda>k. isWorkingDay hs (plusDays d (int k))"
  have P: "?P (gapForward hs d)"
    unfolding gapForward_def using working_far_future by (rule LeastI_ex)
  have "gapForward hs d \<noteq> 0"
  proof
    assume "gapForward hs d = 0"
    with P have "isWorkingDay hs (plusDays d 0)" by simp
    then show False using assms by (cases d) simp_all
  qed
  then obtain m where m: "gapForward hs d = Suc m" by (cases "gapForward hs d") auto
  have "isWorkingDay hs (plusDays (plusDays d 1) (int m))"
    using P m by (simp add: plusDays_plusDays add.commute)
  then have "gapForward hs (plusDays d 1) \<le> m"
    unfolding gapForward_def by (rule Least_le)
  then show ?thesis using m by simp
qed

text \<open>
  \<^verbatim>\<open>subBusinessDays(startDate, daysToSubtract)\<close>: the loop steps one calendar day back and
  counts down on working days. The arguments of the recursion are the loop variables
  \<^verbatim>\<open>date\<close> and \<^verbatim>\<open>daysLeft\<close>.
\<close>

function subBusinessDays :: "int list \<Rightarrow> date \<Rightarrow> int \<Rightarrow> date" where
  "subBusinessDays hs date daysLeft =
     (if daysLeft > 0
      then (let date' = plusDays date (- 1)
            in subBusinessDays hs date' (if isWorkingDay hs date' then daysLeft - 1 else daysLeft))
      else date)"
  by pat_completeness auto
termination
proof (relation "(\<lambda>(hs, d, n). nat n) <*mlex*> measure (\<lambda>(hs, d, n). gapBackward hs (plusDays d (- 1)))")
  show "wf ((\<lambda>(hs, d, n). nat n) <*mlex*> measure (\<lambda>(hs, d, n). gapBackward hs (plusDays d (- 1))))"
    by (simp add: wf_mlex)
next
  fix hs :: "int list" and date :: date and daysLeft :: int and x :: date
  assume pos: "0 < daysLeft" and x: "x = plusDays date (- 1)"
  show "((hs, x, if isWorkingDay hs x then daysLeft - 1 else daysLeft), (hs, date, daysLeft))
        \<in> (\<lambda>(hs, d, n). nat n) <*mlex*> measure (\<lambda>(hs, d, n). gapBackward hs (plusDays d (- 1)))"
  proof (cases "isWorkingDay hs x")
    case True
    then show ?thesis using pos by (simp add: mlex_less)
  next
    case False
    then show ?thesis using pos x gapBackward_step [of hs x]
      by (simp add: mlex_leq)
  qed
qed

function addBusinessDays :: "int list \<Rightarrow> date \<Rightarrow> int \<Rightarrow> date" where
  "addBusinessDays hs date daysLeft =
     (if daysLeft > 0
      then (let date' = plusDays date 1
            in addBusinessDays hs date' (if isWorkingDay hs date' then daysLeft - 1 else daysLeft))
      else date)"
  by pat_completeness auto
termination
proof (relation "(\<lambda>(hs, d, n). nat n) <*mlex*> measure (\<lambda>(hs, d, n). gapForward hs (plusDays d 1))")
  show "wf ((\<lambda>(hs, d, n). nat n) <*mlex*> measure (\<lambda>(hs, d, n). gapForward hs (plusDays d 1)))"
    by (simp add: wf_mlex)
next
  fix hs :: "int list" and date :: date and daysLeft :: int and x :: date
  assume pos: "0 < daysLeft" and x: "x = plusDays date 1"
  show "((hs, x, if isWorkingDay hs x then daysLeft - 1 else daysLeft), (hs, date, daysLeft))
        \<in> (\<lambda>(hs, d, n). nat n) <*mlex*> measure (\<lambda>(hs, d, n). gapForward hs (plusDays d 1))"
  proof (cases "isWorkingDay hs x")
    case True
    then show ?thesis using pos by (simp add: mlex_less)
  next
    case False
    then show ?thesis using pos x gapForward_step [of hs x]
      by (simp add: mlex_leq)
  qed
qed

function ensureWorkingDayBackward :: "int list \<Rightarrow> date \<Rightarrow> date" where
  "ensureWorkingDayBackward hs d =
     (if \<not> isWorkingDay hs d then ensureWorkingDayBackward hs (plusDays d (- 1)) else d)"
  by pat_completeness auto
termination
  by (relation "measure (\<lambda>(hs, d). gapBackward hs d)") (simp_all add: gapBackward_step)

function ensureWorkingDayForward :: "int list \<Rightarrow> date \<Rightarrow> date" where
  "ensureWorkingDayForward hs d =
     (if \<not> isWorkingDay hs d then ensureWorkingDayForward hs (plusDays d 1) else d)"
  by pat_completeness auto
termination
  by (relation "measure (\<lambda>(hs, d). gapForward hs d)") (simp_all add: gapForward_step)

declare subBusinessDays.simps [simp del] addBusinessDays.simps [simp del]
  ensureWorkingDayBackward.simps [simp del] ensureWorkingDayForward.simps [simp del]

text \<open>
  \<^verbatim>\<open>getDaysDiff(d1, d2)\<close>: the time value of \<open>Day n\<close> is \<open>n\<close> times the milliseconds of
  a day; a difference with an invalid date is NaN.
\<close>

fun getDaysDiff :: "date \<Rightarrow> date \<Rightarrow> jsnum" where
  "getDaysDiff (Day d1) (Day d2) =
     Num ((d2 * 86400000 - d1 * 86400000) div (1000 * 60 * 60 * 24) + 1)"
| "getDaysDiff _ _ = NaN"

section \<open>State\<close>

text \<open>
  A phase object. The fields of a result entry of the schedule are those of the phase
  (\<^verbatim>\<open>{ ...p, startDate, endDate }\<close>) with \<^verbatim>\<open>days\<close> possibly overwritten by a computed
  number, which can be NaN; so the type of \<open>days\<close> is a parameter. An absent
  \<^verbatim>\<open>isParallel\<close> is \<open>False\<close>.
\<close>

record 'n phase_fields =
  id_p :: string
  name_p :: string
  days :: 'n
  isParallel :: bool
  manualStartDate :: datestr
  manualEndDate :: datestr

type_synonym phase = "int phase_fields"

record item = "jsnum phase_fields" +
  startDate :: date
  endDate :: date

record timeline_data =
  anchorDate :: datestr
  anchorPhaseId :: string
  anchorType :: string
  sortOrder :: string
  phases :: "phase list"

record timeline =
  id_t :: string
  name_t :: string
  data :: timeline_data

record app_state =
  activeTimelineId :: string
  globalHolidays :: "int list"
  timelines :: "timeline list"

text \<open>The fields of \<^verbatim>\<open>ganttDragState\<close> that \<^verbatim>\<open>applyGanttChange\<close> reads.\<close>

record gantt_drag_state =
  type_d :: string
  phaseId :: string
  timelineId :: string
  initialDays :: int

text \<open>\<^verbatim>\<open>Array.prototype.findIndex\<close>, with \<open>None\<close> for -1.\<close>

fun findIndex :: "('a \<Rightarrow> bool) \<Rightarrow> 'a list \<Rightarrow> nat option" where
  "findIndex P [] = None"
| "findIndex P (x # xs) = (if P x then Some 0 else map_option Suc (findIndex P xs))"

section \<open>Schedule engine\<close>

text \<open>The object \<^verbatim>\<open>{ ...p, startDate: s, endDate: e, days: d }\<close>.\<close>

definition spread :: "phase \<Rightarrow> date \<Rightarrow> date \<Rightarrow> jsnum \<Rightarrow> item" where
  "spread p s e d =
     \<lparr> id_p = id_p p, name_p = name_p p, days = d, isParallel = isParallel p,
       manualStartDate = manualStartDate p, manualEndDate = manualEndDate p,
       startDate = s, endDate = e \<rparr>"

text \<open>
  \<^verbatim>\<open>processParallel(idx)\<close>, applied to the phase \<^verbatim>\<open>data.phases[idx]\<close>; \<open>None\<close> is its
  \<^verbatim>\<open>null\<close>.
\<close>

definition processParallel :: "int list \<Rightarrow> timeline_data \<Rightarrow> phase \<Rightarrow> item option" where
  "processParallel hs dat p =
     (if isParallel p
      then (let s = (if truthy (manualStartDate p) then newDate (manualStartDate p)
                     else newDate (anchorDate dat));
                e = (if truthy (manualEndDate p) then newDate (manualEndDate p)
                     else addBusinessDays hs s (days p - 1));
                diff = getDaysDiff s e
            in Some (spread p s e diff))
      else None)"

text \<open>
  The loop over the phases before the anchor, \<^verbatim>\<open>i = anchorIndex - 1\<close> down to 0: the list
  argument holds \<^verbatim>\<open>phases[anchorIndex - 1], ..., phases[0]\<close> in the order the loop visits
  them, and the result holds the entries the loop stores, in the same order.
\<close>

fun precedingChain :: "int list \<Rightarrow> timeline_data \<Rightarrow> date \<Rightarrow> phase list \<Rightarrow> item list" where
  "precedingChain hs dat nextRefDate [] = []"
| "precedingChain hs dat nextRefDate (p # ps) =
     (case processParallel hs dat p of
        Some parallelRes \<Rightarrow> parallelRes # precedingChain hs dat nextRefDate ps
      | None \<Rightarrow>
          (let endD = subBusinessDays hs nextRefDate 1;
               startD = subBusinessDays hs endD (max 0 (days p - 1))
           in spread p startD endD (Num (days p)) # precedingChain hs dat startD ps))"

text \<open>
  The loop over the phases after the anchor, \<^verbatim>\<open>i = anchorIndex + 1\<close> up to the last index.
\<close>

fun succeedingChain :: "int list \<Rightarrow> timeline_data \<Rightarrow> date \<Rightarrow> phase list \<Rightarrow> item list" where
  "succeedingChain hs dat prevRefDate [] = []"
| "succeedingChain hs dat prevRefDate (p # ps) =
     (case processParallel hs dat p of
        Some parallelRes \<Rightarrow> parallelRes # succeedingChain hs dat prevRefDate ps
      | None \<Rightarrow>
          (let startD = addBusinessDays hs prevRefDate 1;
               endD = addBusinessDays hs startD (max 0 (days p - 1))
           in spread p startD endD (Num (days p)) # succeedingChain hs dat endD ps))"

text \<open>The anchor span \<^verbatim>\<open>(anchorStart, anchorEnd)\<close>.\<close>

definition anchorSpan :: "int list \<Rightarrow> timeline_data \<Rightarrow> phase \<Rightarrow> date \<times> date" where
  "anchorSpan hs dat anchorPhase =
     (let anchorDateObj = newDate (anchorDate dat)
      in if anchorType dat = ''end''
         then (let anchorEnd = ensureWorkingDayBackward hs anchorDateObj;
                   anchorStart = subBusinessDays hs anchorEnd (max 0 (days anchorPhase - 1))
               in (anchorStart, anchorEnd))
         else (let anchorStart = ensureWorkingDayForward hs anchorDateObj;
                   anchorEnd = addBusinessDays hs anchorStart (max 0 (days anchorPhase - 1))
               in (anchorStart, anchorEnd)))"

text \<open>
  The body of \<^verbatim>\<open>calculateSchedule\<close> once the anchor index is known: the \<^verbatim>\<open>results\<close>
  array, filled at the anchor index, then downward, then upward.
\<close>

definition scheduleAt :: "int list \<Rightarrow> timeline_data \<Rightarrow> nat \<Rightarrow> item list" where
  "scheduleAt hs dat anchorIndex =
     (let anchorPhase = phases dat ! anchorIndex;
          (anchorStart, anchorEnd) = anchorSpan hs dat anchorPhase
      in rev (precedingChain hs dat anchorStart (rev (take anchorIndex (phases dat))))
         @ [spread anchorPhase anchorStart anchorEnd (Num (days anchorPhase))]
         @ succeedingChain hs dat anchorEnd (drop (Suc anchorIndex) (phases dat)))"

lemma findIndex_first: "ps \<noteq> [] \<Longrightarrow> findIndex (\<lambda>p. f p = f (ps ! 0)) ps = Some 0"
  by (cases ps) simp_all

text \<open>
  \<^verbatim>\<open>calculateSchedule(data)\<close> returns its result (\<open>None\<close> is \<^verbatim>\<open>null\<close>) and the data
  object as it leaves it: the function writes \<^verbatim>\<open>data.anchorPhaseId\<close> when the stored id
  matches no phase, and calls itself once more.
\<close>

function calculateSchedule :: "int list \<Rightarrow> timeline_data \<Rightarrow> item list option \<times> timeline_data" where
  "calculateSchedule hs dat =
     (if \<not> truthy (anchorDate dat) \<or> length (phases dat) = 0 then (None, dat)
      else (case findIndex (\<lambda>p. id_p p = anchorPhaseId dat) (phases dat) of
              None \<Rightarrow>
                (if length (phases dat) > 0
                 then calculateSchedule hs (dat\<lparr>anchorPhaseId := id_p (phases dat ! 0)\<rparr>)
                 else (Some [], dat))
            | Some anchorIndex \<Rightarrow> (Some (scheduleAt hs dat anchorIndex), dat)))"
  by pat_completeness auto
termination
  by (relation "measure (\<lambda>(hs, dat).
        if findIndex (\<lambda>p. id_p p = anchorPhaseId dat) (phases dat) = None then 1 else 0)")
     (simp_all add: findIndex_first)

declare calculateSchedule.simps [simp del]

section \<open>Interactive edit reconciler\<close>

datatype error = TypeError

text \<open>
  The calls into the storage and view layers, in the order \<^verbatim>\<open>applyGanttChange\<close> makes
  them. What they write to storage and to the page is outside this development. The view
  functions run \<^verbatim>\<open>calculateSchedule\<close> on the stored timelines again; such a run is the
  operation \<open>Recalculate\<close> below.
\<close>

datatype effect = SaveState | RenderPhases | UpdateSchedule | RenderGantt

text \<open>The local formatter \<^verbatim>\<open>iso\<close> of \<^verbatim>\<open>applyGanttChange\<close>.\<close>

definition iso_d :: "date \<Rightarrow> datestr" where
  "iso_d d = normalizeDateStr d"

text \<open>The resize branch, as the phase object it leaves.\<close>

definition resizePhase :: "timeline_data \<Rightarrow> phase \<Rightarrow> int \<Rightarrow> int \<Rightarrow> phase" where
  "resizePhase dat phase initialDays' deltaDays =
     (let newDays = initialDays' + deltaDays;
          phase1 = phase\<lparr>days := max 1 newDays\<rparr>
      in if isParallel phase1
         then (let startStr = (if truthy (manualStartDate phase1) then manualStartDate phase1
                               else anchorDate dat);
                   endD = plusDays (newDate startStr) newDays
               in phase1\<lparr>manualEndDate := iso_d endD\<rparr>)
         else phase1)"

text \<open>The anchor branch of a move: the anchor date itself is shifted.\<close>

definition moveAnchor :: "timeline_data \<Rightarrow> int \<Rightarrow> timeline_data" where
  "moveAnchor dat deltaDays =
     (let currentAnchor = plusDays (newDate (anchorDate dat)) deltaDays
      in dat\<lparr>anchorDate := iso_d currentAnchor\<rparr>)"

text \<open>
  Step 1 of a move of another phase: \<^verbatim>\<open>tempStart\<close> and \<^verbatim>\<open>tempEnd\<close>, and the data object
  as the call of \<^verbatim>\<open>calculateSchedule\<close> leaves it. \<^verbatim>\<open>sch.find\<close> on \<^verbatim>\<open>null\<close> throws.
\<close>

definition currentSpan ::
  "int list \<Rightarrow> timeline_data \<Rightarrow> string \<Rightarrow> phase \<Rightarrow> error + ((date \<times> date) \<times> timeline_data)" where
  "currentSpan hs dat phaseId' phase =
     (let currentIsParallel = isParallel phase
      in if currentIsParallel \<and> truthy (manualStartDate phase)
         then Inr ((newDate (manualStartDate phase), newDate (manualEndDate phase)), dat)
         else (case calculateSchedule hs dat of
                 (None, dat1) \<Rightarrow> Inl TypeError
               | (Some sch, dat1) \<Rightarrow>
                   (case find (\<lambda>i. id_p i = phaseId') sch of
                      Some it \<Rightarrow> Inr ((startDate it, endDate it), dat1)
                    | None \<Rightarrow> Inr ((newDate (anchorDate dat1), newDate (anchorDate dat1)), dat1))))"

text \<open>Step 2: the test \<^verbatim>\<open>currentSchedule.some(...)\<close>.\<close>

definition hasCollision :: "timeline_data \<Rightarrow> string \<Rightarrow> date \<Rightarrow> date \<Rightarrow> item list \<Rightarrow> bool" where
  "hasCollision dat phaseId' proposedStart proposedEnd currentSchedule =
     list_ex (\<lambda>otherItem.
        if id_p otherItem = phaseId' then False
        else (case find (\<lambda>p. id_p p = id_p otherItem) (phases dat) of
                None \<Rightarrow> False
              | Some otherPhase \<Rightarrow>
                  if isParallel otherPhase then False
                  else if id_p otherPhase = anchorPhaseId dat then False
                  else timeLe proposedStart (endDate otherItem)
                       \<and> timeLe (startDate otherItem) proposedEnd)) currentSchedule"

text \<open>Step 3: the writes to the moved phase.\<close>

definition promote :: "phase \<Rightarrow> date \<Rightarrow> date \<Rightarrow> date \<Rightarrow> date \<Rightarrow> phase" where
  "promote phase tempStart tempEnd proposedStart proposedEnd =
     (let phase1 = (if \<not> isParallel phase
                    then phase\<lparr>isParallel := True, manualStartDate := iso_d tempStart,
                               manualEndDate := iso_d tempEnd\<rparr>
                    else phase)
      in phase1\<lparr>manualStartDate := iso_d proposedStart, manualEndDate := iso_d proposedEnd\<rparr>)"

text \<open>
  The move of a phase that is not the anchor; \<open>j\<close> is the index of the phase object in
  \<^verbatim>\<open>data.phases\<close>. The result is the data object and whether the move was committed.
\<close>

definition movePhase ::
  "int list \<Rightarrow> timeline_data \<Rightarrow> string \<Rightarrow> nat \<Rightarrow> int \<Rightarrow> error + (timeline_data \<times> bool)" where
  "movePhase hs dat phaseId' j deltaDays =
     (let phase = phases dat ! j
      in case currentSpan hs dat phaseId' phase of
           Inl err \<Rightarrow> Inl err
         | Inr ((tempStart, tempEnd), dat1) \<Rightarrow>
             (let proposedStart = plusDays tempStart deltaDays;
                  proposedEnd = plusDays tempEnd deltaDays
              in case calculateSchedule hs dat1 of
                   (None, dat2) \<Rightarrow> Inl TypeError
                 | (Some currentSchedule, dat2) \<Rightarrow>
                     if hasCollision dat2 phaseId' proposedStart proposedEnd currentSchedule
                     then Inr (dat2, False)
                     else Inr (dat2\<lparr>phases := (phases dat2)
                                 [j := promote phase tempStart tempEnd proposedStart proposedEnd]\<rparr>,
                               True)))"

text \<open>
  \<^verbatim>\<open>applyGanttChange(deltaDays)\<close> on the application state and the drag state. The objects
  that \<^verbatim>\<open>find\<close> returns are the first matches, and the writes go to them; so the model
  takes their indices. An exception leaves the state as it was: \<^verbatim>\<open>calculateSchedule\<close>
  writes nothing when it returns \<^verbatim>\<open>null\<close>.
\<close>

definition storeData :: "app_state \<Rightarrow> nat \<Rightarrow> timeline_data \<Rightarrow> app_state" where
  "storeData st i dat = st\<lparr>timelines := (timelines st)[i := (timelines st ! i)\<lparr>data := dat\<rparr>]\<rparr>"

definition applyGanttChange ::
  "app_state \<Rightarrow> gantt_drag_state \<Rightarrow> int \<Rightarrow> error + (app_state \<times> effect list)" where
  "applyGanttChange st g deltaDays =
     (if deltaDays = 0 then Inr (st, [])
      else (case findIndex (\<lambda>t. id_t t = timelineId g) (timelines st) of
              None \<Rightarrow> Inr (st, [])
            | Some i \<Rightarrow>
                (let dat = data (timelines st ! i)
                 in case findIndex (\<lambda>p. id_p p = phaseId g) (phases dat) of
                      None \<Rightarrow> Inr (st, [])
                    | Some j \<Rightarrow>
                        (let phase = phases dat ! j
                         in if type_d g = ''resize''
                            then Inr (storeData st i
                                        (dat\<lparr>phases := (phases dat)
                                           [j := resizePhase dat phase (initialDays g) deltaDays]\<rparr>),
                                      [SaveState, RenderPhases, UpdateSchedule])
                            else if type_d g = ''move''
                            then (if id_p phase = anchorPhaseId dat
                                  then Inr (storeData st i (moveAnchor dat deltaDays),
                                            [SaveState, RenderPhases, UpdateSchedule])
                                  else (case movePhase (globalHolidays st) dat (phaseId g) j deltaDays of
                                          Inl err \<Rightarrow> Inl err
                                        | Inr (dat', False) \<Rightarrow>
                                            Inr (storeData st i dat', [RenderGantt])
                                        | Inr (dat', True) \<Rightarrow>
                                            Inr (storeData st i dat',
                                                 [SaveState, RenderPhases, UpdateSchedule])))
                            else Inr (st, [SaveState, RenderPhases, UpdateSchedule])))))"

section \<open>Edit handlers\<close>

text \<open>\<^verbatim>\<open>getActiveTimeline()\<close>, as the index of the timeline it returns; \<open>None\<close> is
  \<^verbatim>\<open>undefined\<close>, on which \<^verbatim>\<open>getActiveData()\<close> throws.\<close>

definition getActiveTimeline :: "app_state \<Rightarrow> nat option" where
  "getActiveTimeline st =
     (case findIndex (\<lambda>t. id_t t = activeTimelineId st) (timelines st) of
        Some i \<Rightarrow> Some i
      | None \<Rightarrow> (if timelines st = [] then None else Some 0))"

text \<open>
  The edit handlers of the phase list and of the top controls, on the active timeline. An
  index that names no phase makes the handler throw before it writes.
\<close>

datatype operation =
    SetName nat string
  | SetParallel nat bool
  | SetManualStart nat datestr
  | SetManualEnd nat datestr
  | SetDays nat bool int
  | SetAnchorPhase string
  | SetAnchorType string
  | SetAnchorDate datestr
  | AddPhase string
  | SetHolidays "int list"
  | Recalculate nat
  | GanttChange gantt_drag_state int

text \<open>The parallel checkbox: refused on the anchor phase.\<close>

definition setParallel :: "timeline_data \<Rightarrow> phase \<Rightarrow> bool \<Rightarrow> phase" where
  "setParallel dat phase checked =
     (if anchorPhaseId dat = id_p phase then phase
      else (let p1 = phase\<lparr>isParallel := checked\<rparr>
            in if isParallel p1
               then (let p2 = (if \<not> truthy (manualStartDate p1)
                               then p1\<lparr>manualStartDate := anchorDate dat\<rparr> else p1)
                     in if \<not> truthy (manualEndDate p2)
                        then p2\<lparr>manualEndDate := anchorDate dat\<rparr> else p2)
               else p1))"

text \<open>The manual date inputs: \<^verbatim>\<open>days\<close> is recomputed when both dates are valid.\<close>

definition setManualStart :: "phase \<Rightarrow> datestr \<Rightarrow> phase" where
  "setManualStart phase v =
     (let p1 = phase\<lparr>manualStartDate := v\<rparr>;
          s = newDate (manualStartDate p1);
          eDate = newDate (if truthy (manualEndDate p1) then manualEndDate p1
                           else manualStartDate p1)
      in case getDaysDiff s eDate of Num n \<Rightarrow> p1\<lparr>days := n\<rparr> | NaN \<Rightarrow> p1)"

definition setManualEnd :: "phase \<Rightarrow> datestr \<Rightarrow> phase" where
  "setManualEnd phase v =
     (let p1 = phase\<lparr>manualEndDate := v\<rparr>;
          s = newDate (if truthy (manualStartDate p1) then manualStartDate p1
                       else manualEndDate p1);
          eDate = newDate (manualEndDate p1)
      in case getDaysDiff s eDate of Num n \<Rightarrow> p1\<lparr>days := n\<rparr> | NaN \<Rightarrow> p1)"

definition onActivePhase :: "app_state \<Rightarrow> nat \<Rightarrow> (timeline_data \<Rightarrow> phase \<Rightarrow> phase) \<Rightarrow> error + app_state" where
  "onActivePhase st idx f =
     (case getActiveTimeline st of
        None \<Rightarrow> Inl TypeError
      | Some a \<Rightarrow>
          (let dat = data (timelines st ! a)
           in if idx < length (phases dat)
              then Inr (storeData st a (dat\<lparr>phases := (phases dat)[idx := f dat (phases dat ! idx)]\<rparr>))
              else Inl TypeError))"

definition onActiveData :: "app_state \<Rightarrow> (timeline_data \<Rightarrow> timeline_data) \<Rightarrow> error + app_state" where
  "onActiveData st f =
     (case getActiveTimeline st of
        None \<Rightarrow> Inl TypeError
      | Some a \<Rightarrow> Inr (storeData st a (f (data (timelines st ! a)))))"

text \<open>
  One operation on the application state. The days input returns at once when its field
  is read-only, before it reads the active data; its \<open>val\<close> is
  \<^verbatim>\<open>parseInt(e.target.value) || 0\<close>. \<open>Recalculate a\<close> is a run of the engine on the
  data of timeline \<open>a\<close>, as the views make after every edit; \<open>GanttChange\<close> is
  \<^verbatim>\<open>applyGanttChange\<close>.
\<close>

fun applyOp :: "app_state \<Rightarrow> operation \<Rightarrow> error + app_state" where
  "applyOp st (SetName idx v) = onActivePhase st idx (\<lambda>dat p. p\<lparr>name_p := v\<rparr>)"
| "applyOp st (SetParallel idx checked) = onActivePhase st idx (\<lambda>dat p. setParallel dat p checked)"
| "applyOp st (SetManualStart idx v) = onActivePhase st idx (\<lambda>dat p. setManualStart p v)"
| "applyOp st (SetManualEnd idx v) = onActivePhase st idx (\<lambda>dat p. setManualEnd p v)"
| "applyOp st (SetDays idx readOnly val) =
     (if readOnly then Inr st else onActivePhase st idx (\<lambda>dat p. p\<lparr>days := max 1 val\<rparr>))"
| "applyOp st (SetAnchorPhase v) = onActiveData st (\<lambda>dat. dat\<lparr>anchorPhaseId := v\<rparr>)"
| "applyOp st (SetAnchorType v) = onActiveData st (\<lambda>dat. dat\<lparr>anchorType := v\<rparr>)"
| "applyOp st (SetAnchorDate v) = onActiveData st (\<lambda>dat. dat\<lparr>anchorDate := v\<rparr>)"
| "applyOp st (AddPhase newId) =
     onActiveData st (\<lambda>dat. dat\<lparr>phases := phases dat @
        [\<lparr> id_p = newId, name_p = ''New Phase'', days = 5, isParallel = False,
           manualStartDate = NoDate, manualEndDate = NoDate \<rparr>]\<rparr>)"
| "applyOp st (SetHolidays hs) = Inr (st\<lparr>globalHolidays := hs\<rparr>)"
| "applyOp st (Recalculate a) =
     (if a < length (timelines st)
      then Inr (storeData st a (snd (calculateSchedule (globalHolidays st) (data (timelines st ! a)))))
      else Inr st)"
| "applyOp st (GanttChange g deltaDays) =
     (case applyGanttChange st g deltaDays of Inl err \<Rightarrow> Inl err | Inr (st', effs) \<Rightarrow> Inr st')"

text \<open>
  A sequence of operations, one event after the other. A handler that throws has written
  nothing, and the next event finds the state as it was.
\<close>

fun applyOps :: "app_state \<Rightarrow> operation list \<Rightarrow> app_state" where
  "applyOps st [] = st"
| "applyOps st (op # ops) =
     (case applyOp st op of Inl err \<Rightarrow> applyOps st ops | Inr st' \<Rightarrow> applyOps st' ops)"

section \<open>Vocabulary of the properties\<close>

text \<open>The number of working days among the days \<open>a, a + 1, ..., b\<close>.\<close>

definition workingDaysIn :: "int list \<Rightarrow> int \<Rightarrow> int \<Rightarrow> nat" where
  "workingDaysIn hs a b = length (filter (\<lambda>z. isWorkingDay hs (Day z)) [a..b])"

text \<open>
  The spans of the sequential entries of a schedule, in list order.
\<close>

definition seqSpans :: "item list \<Rightarrow> (date \<times> date) list" where
  "seqSpans res = map (\<lambda>i. (startDate i, endDate i)) (filter (\<lambda>i. \<not> isParallel i) res)"

text \<open>
  A well-formed span: two valid dates, both working days, the start not after the end.
\<close>

fun spanOK :: "int list \<Rightarrow> date \<times> date \<Rightarrow> bool" where
  "spanOK hs (Day s, Day e) = (s \<le> e \<and> isWorkingDay hs (Day s) \<and> isWorkingDay hs (Day e))"
| "spanOK hs _ = False"

text \<open>
  Working-day adjacency: \<open>e\<close> and \<open>s\<close> are working days, \<open>e\<close> is before \<open>s\<close>, and no
  working day lies strictly between them.
\<close>

fun adjacentWD :: "int list \<Rightarrow> date \<Rightarrow> date \<Rightarrow> bool" where
  "adjacentWD hs (Day e) (Day s) =
     (e < s \<and> isWorkingDay hs (Day e) \<and> isWorkingDay hs (Day s) \<and> workingDaysIn hs (e + 1) (s - 1) = 0)"
| "adjacentWD hs _ _ = False"

text \<open>
  A chain of spans: every span is well formed, and the end of each is adjacent to the start
  of the next. So the spans are strictly increasing, do not overlap and leave no working
  day uncovered between them.
\<close>

fun chainOK :: "int list \<Rightarrow> (date \<times> date) list \<Rightarrow> bool" where
  "chainOK hs [] = True"
| "chainOK hs [x] = spanOK hs x"
| "chainOK hs (x # y # r) = (spanOK hs x \<and> adjacentWD hs (snd x) (fst y) \<and> chainOK hs (y # r))"

text \<open>
  An example timeline: four phases, the second one parallel, anchored at the end of the
  third on Friday 1970-01-09 (day 8).
\<close>

definition mkPhase :: "string \<Rightarrow> int \<Rightarrow> bool \<Rightarrow> datestr \<Rightarrow> datestr \<Rightarrow> phase" where
  "mkPhase i n par ms me =
     \<lparr> id_p = i, name_p = ''phase'', days = n, isParallel = par,
       manualStartDate = ms, manualEndDate = me \<rparr>"

definition exPhases :: "phase list" where
  "exPhases = [mkPhase ''1'' 3 False NoDate NoDate, mkPhase ''2'' 3 True (Ymd 4) NoDate,
               mkPhase ''3'' 2 False NoDate NoDate, mkPhase ''4'' 2 False NoDate NoDate]"

definition exData :: timeline_data where
  "exData = \<lparr> anchorDate = Ymd 8, anchorPhaseId = ''3'', anchorType = ''end'',
              sortOrder = ''asc'', phases = exPhases \<rparr>"

text \<open>The example with an anchor id that matches no phase, with no anchor date, and with no phases.\<close>

definition staleData :: timeline_data where
  "staleData = exData\<lparr>anchorPhaseId := ''gone''\<rparr>"

definition undatedData :: timeline_data where
  "undatedData = staleData\<lparr>anchorDate := NoDate\<rparr>"

definition emptyData :: timeline_data where
  "emptyData = exData\<lparr>phases := []\<rparr>"

text \<open>
  The overlap test of two closed spans, \<^verbatim>\<open>s1 <= e2 && e1 >= s2\<close> on time values.
\<close>

definition overlaps :: "date \<times> date \<Rightarrow> date \<times> date \<Rightarrow> bool" where
  "overlaps a b = (timeLe (fst a) (snd b) \<and> timeLe (fst b) (snd a))"

text \<open>
  The current resolved span of the phase at index \<open>j\<close>: the span of its entry in the
  schedule \<open>sch\<close> that the engine returns.
\<close>

definition resolvedSpan :: "item list \<Rightarrow> nat \<Rightarrow> date \<times> date" where
  "resolvedSpan sch j = (startDate (sch ! j), endDate (sch ! j))"

text \<open>
  The pair of \<^verbatim>\<open>tempStart\<close> and \<^verbatim>\<open>tempEnd\<close> that step 1 of a move computes for the
  phase at index \<open>j\<close>, where \<open>sch\<close> is the schedule that \<^verbatim>\<open>calculateSchedule\<close> returns
  there. For a parallel phase with a manual start date the code reads both manual dates
  as they are stored, so a missing manual end date gives an invalid \<^verbatim>\<open>tempEnd\<close>.
\<close>

definition tempSpan :: "item list \<Rightarrow> phase \<Rightarrow> nat \<Rightarrow> date \<times> date" where
  "tempSpan sch ph j =
     (if isParallel ph \<and> truthy (manualStartDate ph)
      then (newDate (manualStartDate ph), newDate (manualEndDate ph))
      else (startDate (sch ! j), endDate (sch ! j)))"

text \<open>A span shifted by \<open>k\<close> calendar days.\<close>

definition shiftSpan :: "date \<times> date \<Rightarrow> int \<Rightarrow> date \<times> date" where
  "shiftSpan sp k = (plusDays (fst sp) k, plusDays (snd sp) k)"

text \<open>The operation is the parallel checkbox of phase \<open>j\<close> of timeline \<open>i\<close>.\<close>

fun targetsMode :: "app_state \<Rightarrow> nat \<Rightarrow> nat \<Rightarrow> operation \<Rightarrow> bool" where
  "targetsMode st i j (SetParallel idx checked) = (getActiveTimeline st = Some i \<and> idx = j)"
| "targetsMode st i j _ = False"

text \<open>Phase \<open>j\<close> of timeline \<open>i\<close> exists and is parallel.\<close>

definition parallelAt :: "app_state \<Rightarrow> nat \<Rightarrow> nat \<Rightarrow> bool" where
  "parallelAt st i j =
     (i < length (timelines st) \<and> j < length (phases (data (timelines st ! i)))
      \<and> isParallel (phases (data (timelines st ! i)) ! j))"

text \<open>Two states with the same active timeline id and the same timeline ids, in order.\<close>

definition sameShape :: "app_state \<Rightarrow> app_state \<Rightarrow> bool" where
  "sameShape st st' =
     (activeTimelineId st' = activeTimelineId st \<and> map id_t (timelines st') = map id_t (timelines st))"

text \<open>
  The example timeline as the only timeline of an application state, a drag state on it,
  and the state after the first phase has been moved forward by one day.
\<close>

definition exState :: app_state where
  "exState = \<lparr> activeTimelineId = ''t1'', globalHolidays = [],
               timelines = [\<lparr> id_t = ''t1'', name_t = ''Sprint 1'', data = exData \<rparr>] \<rparr>"

definition exDrag :: "string \<Rightarrow> string \<Rightarrow> int \<Rightarrow> gantt_drag_state" where
  "exDrag ty pid n = \<lparr> type_d = ty, phaseId = pid, timelineId = ''t1'', initialDays = n \<rparr>"

definition movedState :: app_state where
  "movedState = exState\<lparr>timelines := [\<lparr> id_t = ''t1'', name_t = ''Sprint 1'',
      data = exData\<lparr>phases := [mkPhase ''1'' 3 True (Ymd 5) (Ymd 7), exPhases ! 1,
                                exPhases ! 2, exPhases ! 3]\<rparr> \<rparr>]\<rparr>"

text \<open>The example state with the manual dates of the second phase replaced.\<close>

definition movedSecond :: "datestr \<Rightarrow> datestr \<Rightarrow> app_state" where
  "movedSecond ms me = exState\<lparr>timelines := [\<lparr> id_t = ''t1'', name_t = ''Sprint 1'',
      data = exData\<lparr>phases := [exPhases ! 0, mkPhase ''2'' 3 True ms me,
                                exPhases ! 2, exPhases ! 3]\<rparr> \<rparr>]\<rparr>"

section \<open>Business-day arithmetic\<close>

declare isWorkingDay.simps [simp del]

lemma addBusinessDays_done: "n \<le> 0 \<Longrightarrow> addBusinessDays hs d n = d"
  by (subst addBusinessDays.simps) simp

lemma addBusinessDays_step:
  "0 < n \<Longrightarrow> addBusinessDays hs d n =
     addBusinessDays hs (plusDays d 1) (if isWorkingDay hs (plusDays d 1) then n - 1 else n)"
  by (subst addBusinessDays.simps) (simp add: Let_def)

lemma subBusinessDays_done: "n \<le> 0 \<Longrightarrow> subBusinessDays hs d n = d"
  by (subst subBusinessDays.simps) simp

lemma subBusinessDays_step:
  "0 < n \<Longrightarrow> subBusinessDays hs d n =
     subBusinessDays hs (plusDays d (- 1)) (if isWorkingDay hs (plusDays d (- 1)) then n - 1 else n)"
  by (subst subBusinessDays.simps) (simp add: Let_def)

lemma addBusinessDays_Day_aux:
  "d = Day x \<Longrightarrow> \<exists>y. addBusinessDays hs d n = Day y \<and> x \<le> y"
proof (induction hs d n arbitrary: x rule: addBusinessDays.induct)
  case (1 hs d n)
  show ?case
  proof (cases "0 < n")
    case False
    then show ?thesis using "1.prems" by (simp add: addBusinessDays_done)
  next
    case True
    have "plusDays d 1 = Day (x + 1)" using "1.prems" by simp
    from "1.IH" [OF True refl this]
    obtain y where "addBusinessDays hs (plusDays d 1) (if isWorkingDay hs (plusDays d 1) then n - 1 else n) = Day y"
      and "x + 1 \<le> y" by auto
    then show ?thesis using True by (simp add: addBusinessDays_step)
  qed
qed

lemma addBusinessDays_Day: "\<exists>y. addBusinessDays hs (Day x) n = Day y \<and> x \<le> y"
  by (rule addBusinessDays_Day_aux) simp

lemma subBusinessDays_Day_aux:
  "d = Day x \<Longrightarrow> \<exists>y. subBusinessDays hs d n = Day y \<and> y \<le> x"
proof (induction hs d n arbitrary: x rule: subBusinessDays.induct)
  case (1 hs d n)
  show ?case
  proof (cases "0 < n")
    case False
    then show ?thesis using "1.prems" by (simp add: subBusinessDays_done)
  next
    case True
    have "plusDays d (- 1) = Day (x - 1)" using "1.prems" by simp
    from "1.IH" [OF True refl this]
    obtain y where "subBusinessDays hs (plusDays d (- 1)) (if isWorkingDay hs (plusDays d (- 1)) then n - 1 else n) = Day y"
      and "y \<le> x - 1" by auto
    then show ?thesis using True by (simp add: subBusinessDays_step)
  qed
qed

lemma subBusinessDays_Day: "\<exists>y. subBusinessDays hs (Day x) n = Day y \<and> y \<le> x"
  by (rule subBusinessDays_Day_aux) simp

lemma addBusinessDays_working: "0 < n \<Longrightarrow> isWorkingDay hs (addBusinessDays hs d n)"
proof (induction hs d n rule: addBusinessDays.induct)
  case (1 hs d n)
  show ?case
  proof (cases "isWorkingDay hs (plusDays d 1)")
    case True
    show ?thesis
    proof (cases "n = 1")
      case True
      then show ?thesis using \<open>isWorkingDay hs (plusDays d 1)\<close>
        by (simp add: addBusinessDays_step addBusinessDays_done)
    next
      case False
      then have "0 < n - 1" using "1.prems" by simp
      then show ?thesis using "1.IH" [OF "1.prems" refl] True "1.prems"
        by (simp add: addBusinessDays_step)
    qed
  next
    case False
    then show ?thesis using "1.IH" [OF "1.prems" refl] "1.prems"
      by (simp add: addBusinessDays_step)
  qed
qed

lemma subBusinessDays_working: "0 < n \<Longrightarrow> isWorkingDay hs (subBusinessDays hs d n)"
proof (induction hs d n rule: subBusinessDays.induct)
  case (1 hs d n)
  show ?case
  proof (cases "isWorkingDay hs (plusDays d (- 1))")
    case True
    show ?thesis
    proof (cases "n = 1")
      case True
      then show ?thesis using \<open>isWorkingDay hs (plusDays d (- 1))\<close>
        by (simp add: subBusinessDays_step subBusinessDays_done)
    next
      case False
      then have "0 < n - 1" using "1.prems" by simp
      then show ?thesis using "1.IH" [OF "1.prems" refl] True "1.prems"
        by (simp add: subBusinessDays_step)
    qed
  next
    case False
    then show ?thesis using "1.IH" [OF "1.prems" refl] "1.prems"
      by (simp add: subBusinessDays_step)
  qed
qed

lemma subBusinessDays_add:
  "0 \<le> a \<Longrightarrow> 0 \<le> b \<Longrightarrow> subBusinessDays hs d (a + b) = subBusinessDays hs (subBusinessDays hs d a) b"
proof (induction hs d a rule: subBusinessDays.induct)
  case (1 hs d a)
  show ?case
  proof (cases "0 < a")
    case False
    then show ?thesis using "1.prems" by (simp add: subBusinessDays_done)
  next
    case True
    let ?d = "plusDays d (- 1)"
    let ?a = "if isWorkingDay hs ?d then a - 1 else a"
    have "0 \<le> ?a" using True by simp
    from "1.IH" [OF True refl this "1.prems"(2)]
    have "subBusinessDays hs ?d (?a + b) = subBusinessDays hs (subBusinessDays hs ?d ?a) b" .
    moreover have "subBusinessDays hs d (a + b) = subBusinessDays hs ?d (?a + b)"
      using True "1.prems" by (subst subBusinessDays_step) (auto simp: algebra_simps)
    moreover have "subBusinessDays hs d a = subBusinessDays hs ?d ?a"
      using True by (subst subBusinessDays_step) auto
    ultimately show ?thesis by simp
  qed
qed

lemma sub_one_is_snap:
  "subBusinessDays hs (plusDays d 1) 1 = ensureWorkingDayBackward hs d"
proof (induction hs d rule: ensureWorkingDayBackward.induct)
  case (1 hs d)
  have bk: "plusDays (plusDays d 1) (- 1) = d" by (cases d) simp_all
  show ?case
  proof (cases "isWorkingDay hs d")
    case True
    then show ?thesis
      by (subst subBusinessDays_step) (simp_all add: bk subBusinessDays_done ensureWorkingDayBackward.simps)
  next
    case False
    have fwd: "plusDays (plusDays d (- 1)) 1 = d" by (cases d) simp_all
    have "subBusinessDays hs (plusDays d 1) 1 = subBusinessDays hs d 1"
      using False by (subst subBusinessDays_step) (simp_all add: bk)
    also have "\<dots> = subBusinessDays hs (plusDays (plusDays d (- 1)) 1) 1" by (simp add: fwd)
    also have "\<dots> = ensureWorkingDayBackward hs (plusDays d (- 1))" using "1.IH" [OF False] .
    also have "\<dots> = ensureWorkingDayBackward hs d"
      using False by (subst (2) ensureWorkingDayBackward.simps) simp
    finally show ?thesis .
  qed
qed

lemma sub_add_snap:
  "0 < n \<Longrightarrow> subBusinessDays hs (addBusinessDays hs d n) n = ensureWorkingDayBackward hs d"
proof (induction hs d n rule: addBusinessDays.induct)
  case (1 hs d n)
  let ?d = "plusDays d 1"
  show ?case
  proof (cases "isWorkingDay hs ?d")
    case False
    have "subBusinessDays hs (addBusinessDays hs d n) n = subBusinessDays hs (addBusinessDays hs ?d n) n"
      using False "1.prems" by (subst addBusinessDays_step) simp_all
    also have "\<dots> = ensureWorkingDayBackward hs ?d"
      using "1.IH" [OF "1.prems" refl] False "1.prems" by simp
    also have "\<dots> = ensureWorkingDayBackward hs (plusDays ?d (- 1))"
      using False by (subst ensureWorkingDayBackward.simps) simp
    also have "plusDays ?d (- 1) = d" by (cases d) simp_all
    finally show ?thesis .
  next
    case True
    have step: "addBusinessDays hs d n = addBusinessDays hs ?d (n - 1)"
      using True "1.prems" by (subst addBusinessDays_step) simp_all
    show ?thesis
    proof (cases "n = 1")
      case True
      then show ?thesis using step by (simp add: addBusinessDays_done sub_one_is_snap)
    next
      case False
      then have pos: "0 < n - 1" using "1.prems" by simp
      have ih: "subBusinessDays hs (addBusinessDays hs ?d (n - 1)) (n - 1) = ensureWorkingDayBackward hs ?d"
        using "1.IH" [OF "1.prems" refl] True pos by simp
      have "subBusinessDays hs (addBusinessDays hs d n) n
            = subBusinessDays hs (addBusinessDays hs ?d (n - 1)) ((n - 1) + 1)"
        using step by simp
      also have "\<dots> = subBusinessDays hs (ensureWorkingDayBackward hs ?d) 1"
        using pos ih by (subst subBusinessDays_add) simp_all
      also have "ensureWorkingDayBackward hs ?d = ?d"
        using True by (subst ensureWorkingDayBackward.simps) simp
      finally show ?thesis by (simp add: sub_one_is_snap)
    qed
  qed
qed

lemma workingDaysIn_empty: "b < a \<Longrightarrow> workingDaysIn hs a b = 0"
  by (simp add: workingDaysIn_def)

lemma workingDaysIn_rec:
  "a \<le> b \<Longrightarrow> workingDaysIn hs a b = (if isWorkingDay hs (Day a) then 1 else 0) + workingDaysIn hs (a + 1) b"
  by (simp add: workingDaysIn_def upto_rec1)

lemma addBusinessDays_count_aux:
  "d = Day x \<Longrightarrow> 0 \<le> n \<Longrightarrow> addBusinessDays hs d n = Day y \<Longrightarrow> int (workingDaysIn hs (x + 1) y) = n"
proof (induction hs d n arbitrary: x rule: addBusinessDays.induct)
  case (1 hs d n)
  show ?case
  proof (cases "0 < n")
    case False
    then have "n = 0" using "1.prems" by simp
    then have "y = x" using "1.prems" by (simp add: addBusinessDays_done)
    then show ?thesis using \<open>n = 0\<close> by (simp add: workingDaysIn_empty)
  next
    case True
    let ?n = "if isWorkingDay hs (plusDays d 1) then n - 1 else n"
    have d': "plusDays d 1 = Day (x + 1)" using "1.prems" by simp
    have n': "0 \<le> ?n" using True by simp
    have y: "addBusinessDays hs (plusDays d 1) ?n = Day y"
      using "1.prems" True by (simp add: addBusinessDays_step)
    have ih: "int (workingDaysIn hs (x + 1 + 1) y) = ?n"
      using "1.IH" [OF True refl d' n' y] .
    have "x + 1 \<le> y" using addBusinessDays_Day [of hs "x + 1" ?n] y d' by simp
    then show ?thesis using ih d' by (simp add: workingDaysIn_rec)
  qed
qed

section \<open>Schedule engine: lemmas\<close>

lemma workingDaysIn_snoc:
  "a \<le> b \<Longrightarrow> workingDaysIn hs a b = workingDaysIn hs a (b - 1) + (if isWorkingDay hs (Day b) then 1 else 0)"
  by (simp add: workingDaysIn_def upto_rec2)

lemma sub_one_adjacent_aux:
  "d = Day r \<Longrightarrow> n = 1 \<Longrightarrow>
   \<exists>e. subBusinessDays hs d n = Day e \<and> e < r \<and> isWorkingDay hs (Day e) \<and> workingDaysIn hs (e + 1) (r - 1) = 0"
proof (induction hs d n arbitrary: r rule: subBusinessDays.induct)
  case (1 hs d n)
  have pos: "0 < n" using "1.prems" by simp
  have d': "plusDays d (- 1) = Day (r - 1)" using "1.prems" by simp
  show ?case
  proof (cases "isWorkingDay hs (Day (r - 1))")
    case True
    then have "subBusinessDays hs d n = Day (r - 1)"
      using "1.prems" d' by (simp add: subBusinessDays_step subBusinessDays_done)
    then show ?thesis using True by (simp add: workingDaysIn_empty)
  next
    case False
    then have n': "(if isWorkingDay hs (plusDays d (- 1)) then n - 1 else n) = 1"
      using d' "1.prems" by simp
    from "1.IH" [OF pos refl d' n']
    obtain e where e: "subBusinessDays hs (plusDays d (- 1)) (if isWorkingDay hs (plusDays d (- 1)) then n - 1 else n) = Day e"
      "e < r - 1" "isWorkingDay hs (Day e)" "workingDaysIn hs (e + 1) (r - 1 - 1) = 0"
      by blast
    have "subBusinessDays hs d n = Day e"
      using e(1) pos by (simp add: subBusinessDays_step)
    moreover have "workingDaysIn hs (e + 1) (r - 1) = 0"
      using e(2,4) False by (simp add: workingDaysIn_snoc)
    ultimately show ?thesis using e(2,3) by simp
  qed
qed

lemma sub_one_adjacent:
  "isWorkingDay hs (Day r) \<Longrightarrow> \<exists>e. subBusinessDays hs (Day r) 1 = Day e \<and> adjacentWD hs (Day e) (Day r)"
  using sub_one_adjacent_aux [OF refl refl, of hs r] by auto

lemma add_one_adjacent_aux:
  "d = Day r \<Longrightarrow> n = 1 \<Longrightarrow>
   \<exists>s. addBusinessDays hs d n = Day s \<and> r < s \<and> isWorkingDay hs (Day s) \<and> workingDaysIn hs (r + 1) (s - 1) = 0"
proof (induction hs d n arbitrary: r rule: addBusinessDays.induct)
  case (1 hs d n)
  have pos: "0 < n" using "1.prems" by simp
  have d': "plusDays d 1 = Day (r + 1)" using "1.prems" by simp
  show ?case
  proof (cases "isWorkingDay hs (Day (r + 1))")
    case True
    then have "addBusinessDays hs d n = Day (r + 1)"
      using "1.prems" d' by (simp add: addBusinessDays_step addBusinessDays_done)
    then show ?thesis using True by (simp add: workingDaysIn_empty)
  next
    case False
    then have n': "(if isWorkingDay hs (plusDays d 1) then n - 1 else n) = 1"
      using d' "1.prems" by simp
    from "1.IH" [OF pos refl d' n']
    obtain s where s: "addBusinessDays hs (plusDays d 1) (if isWorkingDay hs (plusDays d 1) then n - 1 else n) = Day s"
      "r + 1 < s" "isWorkingDay hs (Day s)" "workingDaysIn hs (r + 1 + 1) (s - 1) = 0"
      by blast
    have "addBusinessDays hs d n = Day s"
      using s(1) pos by (simp add: addBusinessDays_step)
    moreover have "workingDaysIn hs (r + 1) (s - 1) = 0"
      using s(2,4) False by (simp add: workingDaysIn_rec)
    ultimately show ?thesis using s(2,3) by simp
  qed
qed

lemma add_one_adjacent:
  "isWorkingDay hs (Day r) \<Longrightarrow> \<exists>s. addBusinessDays hs (Day r) 1 = Day s \<and> adjacentWD hs (Day r) (Day s)"
  using add_one_adjacent_aux [OF refl refl, of hs r] by auto

lemma sub_span:
  assumes "isWorkingDay hs (Day e)"
  shows "\<exists>s. subBusinessDays hs (Day e) k = Day s \<and> spanOK hs (Day s, Day e)"
proof -
  obtain s where s: "subBusinessDays hs (Day e) k = Day s" "s \<le> e"
    using subBusinessDays_Day by blast
  have "isWorkingDay hs (Day s)"
  proof (cases "0 < k")
    case True
    then show ?thesis using subBusinessDays_working [of k hs "Day e"] s by simp
  next
    case False
    then show ?thesis using s assms by (simp add: subBusinessDays_done)
  qed
  then show ?thesis using s assms by simp
qed

lemma add_span:
  assumes "isWorkingDay hs (Day s)"
  shows "\<exists>e. addBusinessDays hs (Day s) k = Day e \<and> spanOK hs (Day s, Day e)"
proof -
  obtain e where e: "addBusinessDays hs (Day s) k = Day e" "s \<le> e"
    using addBusinessDays_Day by blast
  have "isWorkingDay hs (Day e)"
  proof (cases "0 < k")
    case True
    then show ?thesis using addBusinessDays_working [of k hs "Day s"] e by simp
  next
    case False
    then show ?thesis using e assms by (simp add: addBusinessDays_done)
  qed
  then show ?thesis using e assms by simp
qed

lemma ensureWorkingDayBackward_Day_aux:
  "d = Day x \<Longrightarrow> \<exists>y. ensureWorkingDayBackward hs d = Day y \<and> isWorkingDay hs (Day y)"
proof (induction hs d arbitrary: x rule: ensureWorkingDayBackward.induct)
  case (1 hs d)
  show ?case
  proof (cases "isWorkingDay hs d")
    case True
    then show ?thesis using "1.prems" by (subst ensureWorkingDayBackward.simps) simp
  next
    case False
    have "plusDays d (- 1) = Day (x - 1)" using "1.prems" by simp
    from "1.IH" [OF False this] show ?thesis
      using False by (subst ensureWorkingDayBackward.simps) simp
  qed
qed

lemma ensureWorkingDayForward_Day_aux:
  "d = Day x \<Longrightarrow> \<exists>y. ensureWorkingDayForward hs d = Day y \<and> isWorkingDay hs (Day y)"
proof (induction hs d arbitrary: x rule: ensureWorkingDayForward.induct)
  case (1 hs d)
  show ?case
  proof (cases "isWorkingDay hs d")
    case True
    then show ?thesis using "1.prems" by (subst ensureWorkingDayForward.simps) simp
  next
    case False
    have "plusDays d 1 = Day (x + 1)" using "1.prems" by simp
    from "1.IH" [OF False this] show ?thesis
      using False by (subst ensureWorkingDayForward.simps) simp
  qed
qed

lemma anchorSpan_ok:
  assumes "anchorDate dat = Ymd a"
  shows "\<exists>s e. anchorSpan hs dat p = (Day s, Day e) \<and> spanOK hs (Day s, Day e)"
proof (cases "anchorType dat = ''end''")
  case True
  obtain e where e: "ensureWorkingDayBackward hs (Day a) = Day e" "isWorkingDay hs (Day e)"
    using ensureWorkingDayBackward_Day_aux [OF refl] by blast
  obtain s where "subBusinessDays hs (Day e) (max 0 (days p - 1)) = Day s" "spanOK hs (Day s, Day e)"
    using sub_span [OF e(2)] by blast
  then show ?thesis using True e assms by (simp add: anchorSpan_def)
next
  case False
  obtain s where s: "ensureWorkingDayForward hs (Day a) = Day s" "isWorkingDay hs (Day s)"
    using ensureWorkingDayForward_Day_aux [OF refl] by blast
  obtain e where "addBusinessDays hs (Day s) (max 0 (days p - 1)) = Day e" "spanOK hs (Day s, Day e)"
    using add_span [OF s(2)] by blast
  then show ?thesis using False s assms by (simp add: anchorSpan_def)
qed

lemma processParallel_None: "\<not> isParallel p \<Longrightarrow> processParallel hs dat p = None"
  by (simp add: processParallel_def)

lemma processParallel_Some:
  "isParallel p \<Longrightarrow> \<exists>it. processParallel hs dat p = Some it \<and> isParallel it \<and> id_p it = id_p p"
  by (simp add: processParallel_def spread_def Let_def)

lemma processParallel_phases [simp]:
  "processParallel hs (dat\<lparr>phases := ps\<rparr>) p = processParallel hs dat p"
  by (simp add: processParallel_def)

lemma spread_sel [simp]:
  "isParallel (spread p s e d) = isParallel p"
  "id_p (spread p s e d) = id_p p"
  "startDate (spread p s e d) = s"
  "endDate (spread p s e d) = e"
  "days (spread p s e d) = d"
  by (simp_all add: spread_def)

lemma seqSpans_append [simp]: "seqSpans (xs @ ys) = seqSpans xs @ seqSpans ys"
  by (simp add: seqSpans_def)

lemma seqSpans_rev: "seqSpans (rev xs) = rev (seqSpans xs)"
  by (simp add: seqSpans_def rev_map rev_filter)

lemma seqSpans_Cons:
  "seqSpans (x # xs) = (if isParallel x then seqSpans xs else (startDate x, endDate x) # seqSpans xs)"
  by (simp add: seqSpans_def)

lemma seqSpans_Nil [simp]: "seqSpans [] = []"
  by (simp add: seqSpans_def)

lemma chainOK_snoc:
  "chainOK hs (xs @ [a]) \<Longrightarrow> spanOK hs b \<Longrightarrow> adjacentWD hs (snd a) (fst b) \<Longrightarrow> chainOK hs (xs @ [a, b])"
proof (induction xs)
  case Nil
  then show ?case by simp
next
  case (Cons x xs)
  show ?case
  proof (cases xs)
    case Nil
    then show ?thesis using Cons by simp
  next
    case (Cons y ys)
    then show ?thesis using Cons.IH Cons.prems by simp
  qed
qed

lemma precedingChain_chain:
  assumes "chainOK hs ((Day r, e0) # rest)"
  shows "chainOK hs (rev (seqSpans (precedingChain hs dat (Day r) ps)) @ (Day r, e0) # rest)"
  using assms
proof (induction ps arbitrary: r e0 rest)
  case Nil
  then show ?case by simp
next
  case (Cons p ps)
  show ?case
  proof (cases "isParallel p")
    case True
    then obtain it where "processParallel hs dat p = Some it" "isParallel it"
      using processParallel_Some by blast
    then show ?thesis using Cons by (simp add: seqSpans_Cons)
  next
    case False
    have wr: "isWorkingDay hs (Day r)" using Cons.prems by (cases e0; cases rest) auto
    obtain e where e: "subBusinessDays hs (Day r) 1 = Day e" "adjacentWD hs (Day e) (Day r)"
      using sub_one_adjacent [OF wr] by blast
    then have we: "isWorkingDay hs (Day e)" by simp
    obtain s where s: "subBusinessDays hs (Day e) (max 0 (days p - 1)) = Day s" "spanOK hs (Day s, Day e)"
      using sub_span [OF we] by blast
    have "chainOK hs ((Day s, Day e) # (Day r, e0) # rest)"
      using s(2) e(2) Cons.prems by simp
    from Cons.IH [OF this]
    have "chainOK hs (rev (seqSpans (precedingChain hs dat (Day s) ps)) @ (Day s, Day e) # (Day r, e0) # rest)" .
    then show ?thesis using False e(1) s(1)
      by (simp add: processParallel_None seqSpans_Cons Let_def)
  qed
qed

lemma succeedingChain_chain:
  assumes "chainOK hs (pre @ [(s0, Day r)])"
  shows "chainOK hs (pre @ (s0, Day r) # seqSpans (succeedingChain hs dat (Day r) ps))"
  using assms
proof (induction ps arbitrary: pre s0 r)
  case Nil
  then show ?case by simp
next
  case (Cons p ps)
  show ?case
  proof (cases "isParallel p")
    case True
    then obtain it where "processParallel hs dat p = Some it" "isParallel it"
      using processParallel_Some by blast
    then show ?thesis using Cons by (simp add: seqSpans_Cons)
  next
    case False
    have "spanOK hs (s0, Day r)" using Cons.prems
    proof (induction pre)
      case Nil
      then show ?case by simp
    next
      case (Cons x xs)
      then show ?case by (cases xs) auto
    qed
    then have wr: "isWorkingDay hs (Day r)" by (cases s0) auto
    obtain s where s: "addBusinessDays hs (Day r) 1 = Day s" "adjacentWD hs (Day r) (Day s)"
      using add_one_adjacent [OF wr] by blast
    then have ws: "isWorkingDay hs (Day s)" by simp
    obtain e where e: "addBusinessDays hs (Day s) (max 0 (days p - 1)) = Day e" "spanOK hs (Day s, Day e)"
      using add_span [OF ws] by blast
    have "chainOK hs (pre @ [(s0, Day r), (Day s, Day e)])"
      using chainOK_snoc [OF Cons.prems e(2)] s(2) by simp
    then have "chainOK hs ((pre @ [(s0, Day r)]) @ [(Day s, Day e)])" by simp
    from Cons.IH [OF this]
    have "chainOK hs ((pre @ [(s0, Day r)]) @ (Day s, Day e) # seqSpans (succeedingChain hs dat (Day e) ps))" .
    then show ?thesis using False s(1) e(1)
      by (simp add: processParallel_None seqSpans_Cons Let_def)
  qed
qed

lemma precedingChain_filter:
  "filter (\<lambda>i. \<not> isParallel i) (precedingChain hs dat ref ps)
   = precedingChain hs dat ref (filter (\<lambda>p. \<not> isParallel p) ps)"
proof (induction ps arbitrary: ref)
  case Nil
  show ?case by simp
next
  case (Cons p ps)
  show ?case
  proof (cases "isParallel p")
    case True
    then obtain it where "processParallel hs dat p = Some it" "isParallel it"
      using processParallel_Some by blast
    then show ?thesis using True Cons by simp
  next
    case False
    then show ?thesis using Cons by (simp add: processParallel_None Let_def)
  qed
qed

lemma succeedingChain_filter:
  "filter (\<lambda>i. \<not> isParallel i) (succeedingChain hs dat ref ps)
   = succeedingChain hs dat ref (filter (\<lambda>p. \<not> isParallel p) ps)"
proof (induction ps arbitrary: ref)
  case Nil
  show ?case by simp
next
  case (Cons p ps)
  show ?case
  proof (cases "isParallel p")
    case True
    then obtain it where "processParallel hs dat p = Some it" "isParallel it"
      using processParallel_Some by blast
    then show ?thesis using True Cons by simp
  next
    case False
    then show ?thesis using Cons by (simp add: processParallel_None Let_def)
  qed
qed

lemma precedingChain_phases [simp]:
  "precedingChain hs (dat\<lparr>phases := x\<rparr>) ref ps = precedingChain hs dat ref ps"
  by (induction ps arbitrary: ref) (simp_all add: Let_def split: option.splits)

lemma succeedingChain_phases [simp]:
  "succeedingChain hs (dat\<lparr>phases := x\<rparr>) ref ps = succeedingChain hs dat ref ps"
  by (induction ps arbitrary: ref) (simp_all add: Let_def split: option.splits)

lemma precedingChain_ids: "map id_p (precedingChain hs dat ref ps) = map id_p ps"
proof (induction ps arbitrary: ref)
  case Nil
  show ?case by simp
next
  case (Cons p ps)
  show ?case
  proof (cases "isParallel p")
    case True
    then obtain it where "processParallel hs dat p = Some it" "id_p it = id_p p"
      using processParallel_Some by blast
    then show ?thesis using Cons by simp
  next
    case False
    then show ?thesis using Cons by (simp add: processParallel_None Let_def)
  qed
qed

lemma succeedingChain_ids: "map id_p (succeedingChain hs dat ref ps) = map id_p ps"
proof (induction ps arbitrary: ref)
  case Nil
  show ?case by simp
next
  case (Cons p ps)
  show ?case
  proof (cases "isParallel p")
    case True
    then obtain it where "processParallel hs dat p = Some it" "id_p it = id_p p"
      using processParallel_Some by blast
    then show ?thesis using Cons by simp
  next
    case False
    then show ?thesis using Cons by (simp add: processParallel_None Let_def)
  qed
qed

lemma findIndex_Some:
  "findIndex P xs = Some k \<Longrightarrow> k < length xs \<and> P (xs ! k) \<and> (\<forall>x \<in> set (take k xs). \<not> P x)"
proof (induction xs arbitrary: k)
  case Nil
  then show ?case by simp
next
  case (Cons x xs)
  show ?case
  proof (cases "P x")
    case True
    then show ?thesis using Cons.prems by simp
  next
    case False
    then obtain m where m: "findIndex P xs = Some m" "k = Suc m"
      using Cons.prems by auto
    from Cons.IH [OF m(1)] show ?thesis using False m(2) by simp
  qed
qed

lemma findIndex_None: "findIndex P xs = None \<longleftrightarrow> (\<forall>x \<in> set xs. \<not> P x)"
  by (induction xs) auto

lemma findIndex_split:
  "\<forall>x \<in> set xs. \<not> P x \<Longrightarrow> P y \<Longrightarrow> findIndex P (xs @ y # ys) = Some (length xs)"
  by (induction xs) simp_all

lemma calculateSchedule_null:
  "\<not> truthy (anchorDate dat) \<or> phases dat = [] \<Longrightarrow> calculateSchedule hs dat = (None, dat)"
  by (subst calculateSchedule.simps) auto

lemma calculateSchedule_found:
  assumes "truthy (anchorDate dat)"
      and "findIndex (\<lambda>p. id_p p = anchorPhaseId dat) (phases dat) = Some k"
  shows "calculateSchedule hs dat = (Some (scheduleAt hs dat k), dat)"
proof -
  have "phases dat \<noteq> []" using assms(2) by (cases "phases dat") auto
  then show ?thesis using assms by (subst calculateSchedule.simps) simp
qed

lemma calculateSchedule_stale:
  assumes "truthy (anchorDate dat)" and "phases dat \<noteq> []"
      and "findIndex (\<lambda>p. id_p p = anchorPhaseId dat) (phases dat) = None"
  shows "calculateSchedule hs dat =
           (Some (scheduleAt hs (dat\<lparr>anchorPhaseId := id_p (phases dat ! 0)\<rparr>) 0),
            dat\<lparr>anchorPhaseId := id_p (phases dat ! 0)\<rparr>)"
proof -
  let ?d = "dat\<lparr>anchorPhaseId := id_p (phases dat ! 0)\<rparr>"
  have "calculateSchedule hs dat = calculateSchedule hs ?d"
    using assms by (subst calculateSchedule.simps) simp
  also have "\<dots> = (Some (scheduleAt hs ?d 0), ?d)"
    using assms(1,2) by (intro calculateSchedule_found) (simp_all add: findIndex_first)
  finally show ?thesis .
qed

lemma anchorSpan_phases [simp]: "anchorSpan hs (dat\<lparr>phases := x\<rparr>) p = anchorSpan hs dat p"
  by (simp add: anchorSpan_def)

lemma scheduleAt_unfold:
  "anchorSpan hs dat (phases dat ! k) = (s, e) \<Longrightarrow>
   scheduleAt hs dat k =
     rev (precedingChain hs dat s (rev (take k (phases dat))))
     @ [spread (phases dat ! k) s e (Num (days (phases dat ! k)))]
     @ succeedingChain hs dat e (drop (Suc k) (phases dat))"
  by (simp add: scheduleAt_def Let_def)

lemma scheduleAt_ids:
  assumes "k < length (phases dat)"
  shows "map id_p (scheduleAt hs dat k) = map id_p (phases dat)"
proof -
  obtain s e where se: "anchorSpan hs dat (phases dat ! k) = (s, e)" by (cases "anchorSpan hs dat (phases dat ! k)")
  have "map id_p (scheduleAt hs dat k)
        = map id_p (take k (phases dat)) @ [id_p (phases dat ! k)] @ map id_p (drop (Suc k) (phases dat))"
    using se by (simp add: scheduleAt_unfold precedingChain_ids succeedingChain_ids rev_map [symmetric])
  also have "\<dots> = map id_p (take k (phases dat) @ phases dat ! k # drop (Suc k) (phases dat))"
    by simp
  also have "\<dots> = map id_p (phases dat)"
    using assms by (simp only: id_take_nth_drop [symmetric])
  finally show ?thesis .
qed

lemma scheduleAt_chain:
  assumes "anchorDate dat = Ymd a" and "k < length (phases dat)" and "\<not> isParallel (phases dat ! k)"
  shows "chainOK hs (seqSpans (scheduleAt hs dat k))"
proof -
  let ?p = "phases dat ! k"
  obtain s e where se: "anchorSpan hs dat ?p = (Day s, Day e)" "spanOK hs (Day s, Day e)"
    using anchorSpan_ok [OF assms(1)] by blast
  let ?pre = "rev (seqSpans (precedingChain hs dat (Day s) (rev (take k (phases dat)))))"
  have "chainOK hs [(Day s, Day e)]" using se(2) by simp
  then have "chainOK hs (?pre @ [(Day s, Day e)])"
    by (rule precedingChain_chain)
  then have "chainOK hs (?pre @ (Day s, Day e) # seqSpans (succeedingChain hs dat (Day e) (drop (Suc k) (phases dat))))"
    by (rule succeedingChain_chain)
  then show ?thesis using se(1) assms(3)
    by (simp add: scheduleAt_unfold seqSpans_rev seqSpans_Cons)
qed

lemma scheduleAt_filter:
  assumes "findIndex P (phases dat) = Some k" and "\<not> isParallel (phases dat ! k)"
  defines "Q \<equiv> \<lambda>p::phase. \<not> isParallel p"
  shows "findIndex P (filter Q (phases dat)) = Some (length (filter Q (take k (phases dat))))"
    and "scheduleAt hs (dat\<lparr>phases := filter Q (phases dat)\<rparr>) (length (filter Q (take k (phases dat))))
         = filter (\<lambda>i. \<not> isParallel i) (scheduleAt hs dat k)"
proof -
  let ?ps = "phases dat"
  let ?k = "length (filter Q (take k ?ps))"
  have k: "k < length ?ps" "P (?ps ! k)" "\<forall>x \<in> set (take k ?ps). \<not> P x"
    using findIndex_Some [OF assms(1)] by simp_all
  have Qk: "Q (?ps ! k)" using assms(2) by (simp add: Q_def)
  have "?ps = take k ?ps @ ?ps ! k # drop (Suc k) ?ps"
    using k(1) by (rule id_take_nth_drop)
  then have "filter Q ?ps = filter Q (take k ?ps @ ?ps ! k # drop (Suc k) ?ps)" by simp
  then have split: "filter Q ?ps = filter Q (take k ?ps) @ ?ps ! k # filter Q (drop (Suc k) ?ps)"
    using Qk by simp
  show "findIndex P (filter Q ?ps) = Some ?k"
    unfolding split using k(2,3) by (intro findIndex_split) auto
  have nth: "filter Q ?ps ! ?k = ?ps ! k" unfolding split by simp
  have tk: "take ?k (filter Q ?ps) = filter Q (take k ?ps)" unfolding split by simp
  have dr: "drop (Suc ?k) (filter Q ?ps) = filter Q (drop (Suc k) ?ps)" unfolding split by simp
  obtain s e where se: "anchorSpan hs dat (?ps ! k) = (s, e)" by (cases "anchorSpan hs dat (?ps ! k)")
  have "scheduleAt hs (dat\<lparr>phases := filter Q ?ps\<rparr>) ?k
        = rev (precedingChain hs dat s (rev (filter Q (take k ?ps))))
          @ [spread (?ps ! k) s e (Num (days (?ps ! k)))]
          @ succeedingChain hs dat e (filter Q (drop (Suc k) ?ps))"
    using se by (subst scheduleAt_unfold [where s = s and e = e]) (simp_all add: nth tk dr)
  also have "\<dots> = filter (\<lambda>i. \<not> isParallel i) (scheduleAt hs dat k)"
  proof -
    have "filter (\<lambda>i. \<not> isParallel i) (rev (precedingChain hs dat s (rev (take k ?ps))))
          = rev (precedingChain hs dat s (rev (filter Q (take k ?ps))))"
      by (simp add: rev_filter [symmetric] precedingChain_filter Q_def)
    then show ?thesis using se assms(2)
      by (simp add: scheduleAt_unfold succeedingChain_filter Q_def)
  qed
  finally show "scheduleAt hs (dat\<lparr>phases := filter Q ?ps\<rparr>) ?k
         = filter (\<lambda>i. \<not> isParallel i) (scheduleAt hs dat k)" .
qed

lemma calculateSchedule_again:
  "\<exists>r d1. calculateSchedule hs dat = (r, d1)
        \<and> calculateSchedule hs d1 = (r, d1)
        \<and> phases d1 = phases dat \<and> anchorDate d1 = anchorDate dat
        \<and> anchorType d1 = anchorType dat \<and> sortOrder d1 = sortOrder dat
        \<and> (r = None \<longleftrightarrow> \<not> truthy (anchorDate dat) \<or> phases dat = [])
        \<and> (\<forall>sch. r = Some sch \<longrightarrow> map id_p sch = map id_p (phases dat))
        \<and> (d1 = dat
           \<or> (findIndex (\<lambda>p. id_p p = anchorPhaseId dat) (phases dat) = None
              \<and> d1 = dat\<lparr>anchorPhaseId := id_p (phases dat ! 0)\<rparr>))"
proof (cases "\<not> truthy (anchorDate dat) \<or> phases dat = []")
  case True
  then show ?thesis by (simp add: calculateSchedule_null)
next
  case False
  then have t: "truthy (anchorDate dat)" and ne: "phases dat \<noteq> []" by simp_all
  show ?thesis
  proof (cases "findIndex (\<lambda>p. id_p p = anchorPhaseId dat) (phases dat)")
    case (Some k)
    have "k < length (phases dat)" using findIndex_Some [OF Some] by simp
    then show ?thesis using calculateSchedule_found [OF t Some] False
      by (simp add: scheduleAt_ids)
  next
    case None
    let ?d = "dat\<lparr>anchorPhaseId := id_p (phases dat ! 0)\<rparr>"
    have 1: "calculateSchedule hs dat = (Some (scheduleAt hs ?d 0), ?d)"
      using t ne None by (rule calculateSchedule_stale)
    have "findIndex (\<lambda>p. id_p p = anchorPhaseId ?d) (phases ?d) = Some 0"
      using ne by (simp add: findIndex_first)
    moreover have "truthy (anchorDate ?d)" using t by simp
    ultimately have 2: "calculateSchedule hs ?d = (Some (scheduleAt hs ?d 0), ?d)"
      by (intro calculateSchedule_found)
    have "map id_p (scheduleAt hs ?d 0) = map id_p (phases ?d)"
      using ne by (intro scheduleAt_ids) simp
    then show ?thesis using 1 2 None False by simp
  qed
qed

lemma getDaysDiff_Day: "getDaysDiff (Day a) (Day b) = Num (b - a + 1)"
proof -
  have c: "(1000 * 60 * 60 * 24 :: int) = 86400000" by simp
  have "b * 86400000 - a * 86400000 = (b - a) * (86400000 :: int)"
    by (simp only: left_diff_distrib)
  then have "(b * 86400000 - a * 86400000) div (1000 * 60 * 60 * 24) = (b - a :: int)"
    by (simp only: c nonzero_mult_div_cancel_right)
  then show ?thesis by (simp only: getDaysDiff.simps)
qed

section \<open>Reconciler: lemmas\<close>

lemma storeData_same: "i < length (timelines st) \<Longrightarrow> storeData st i (data (timelines st ! i)) = st"
  by (simp add: storeData_def)

lemma find_findIndex: "findIndex P xs = Some j \<Longrightarrow> find P xs = Some (xs ! j)"
proof (induction xs arbitrary: j)
  case Nil
  then show ?case by simp
next
  case (Cons x xs)
  then show ?case by (cases "P x") auto
qed

lemma findIndex_map: "findIndex (\<lambda>x. f x = v) xs = findIndex (\<lambda>y. y = v) (map f xs)"
  by (induction xs) simp_all

lemma find_by_ids:
  assumes "map id_p (sch :: item list) = map id_p (ps :: phase list)"
      and "findIndex (\<lambda>p. id_p p = v) ps = Some j"
  shows "find (\<lambda>i. id_p i = v) sch = Some (sch ! j)"
proof -
  have "findIndex (\<lambda>i. id_p i = v) sch = findIndex (\<lambda>y. y = v) (map id_p sch)"
    by (rule findIndex_map)
  also have "\<dots> = findIndex (\<lambda>p. id_p p = v) ps"
    using assms(1) by (simp add: findIndex_map [of id_p v ps])
  finally show ?thesis using assms(2) by (simp add: find_findIndex)
qed

lemma find_distinct:
  "distinct (map f xs) \<Longrightarrow> m < length xs \<Longrightarrow> find (\<lambda>x. f x = f (xs ! m)) xs = Some (xs ! m)"
proof (induction xs arbitrary: m)
  case Nil
  then show ?case by simp
next
  case (Cons x xs)
  show ?case
  proof (cases m)
    case 0
    then show ?thesis by simp
  next
    case (Suc n)
    then have n: "n < length xs" using Cons.prems by simp
    then have "f (xs ! n) \<in> f ` set xs" by simp
    then have "f x \<noteq> f (xs ! n)" using Cons.prems(1) by auto
    then show ?thesis using Suc Cons.IH [OF _ n] Cons.prems(1) by simp
  qed
qed

lemma hasCollision_iff:
  assumes "map id_p sch = map id_p (phases d)" and "distinct (map id_p (phases d))"
  shows "hasCollision d pid pS pE sch \<longleftrightarrow>
         (\<exists>m < length (phases d). id_p (phases d ! m) \<noteq> pid \<and> \<not> isParallel (phases d ! m)
              \<and> id_p (phases d ! m) \<noteq> anchorPhaseId d
              \<and> timeLe pS (endDate (sch ! m)) \<and> timeLe (startDate (sch ! m)) pE)"
proof -
  have len: "length sch = length (phases d)" using assms(1) by (rule map_eq_imp_length_eq)
  have ids: "\<And>m. m < length (phases d) \<Longrightarrow> id_p (sch ! m) = id_p (phases d ! m)"
  proof -
    fix m assume m: "m < length (phases d)"
    then have "id_p (sch ! m) = map id_p sch ! m" using len by simp
    also have "\<dots> = id_p (phases d ! m)" using assms(1) m by simp
    finally show "id_p (sch ! m) = id_p (phases d ! m)" .
  qed
  have fnd: "\<And>m. m < length (phases d) \<Longrightarrow>
        find (\<lambda>p. id_p p = id_p (phases d ! m)) (phases d) = Some (phases d ! m)"
    using find_distinct [OF assms(2)] by simp
  show ?thesis
    unfolding hasCollision_def list_ex_length len
    by (rule ex_cong) (auto simp: fnd ids)
qed

lemma distinct_index:
  assumes "distinct (map f xs)" and "findIndex (\<lambda>x. f x = v) xs = Some j" and "m < length xs"
  shows "f (xs ! m) \<noteq> v \<longleftrightarrow> m \<noteq> j"
proof -
  have j: "j < length xs" "f (xs ! j) = v" using findIndex_Some [OF assms(2)] by simp_all
  have "map f xs ! m = map f xs ! j \<longleftrightarrow> m = j"
    using assms(1,3) j(1) by (simp add: nth_eq_iff_index_eq del: nth_map)
  then show ?thesis using assms(3) j by simp
qed

lemma movePhase_null:
  assumes "calculateSchedule hs dat = (None, d1)"
  shows "movePhase hs dat pid j delta = Inl TypeError"
  using assms by (simp add: movePhase_def currentSpan_def Let_def)

lemma movePhase_result:
  assumes "calculateSchedule hs dat = (Some sch, d1)"
      and "findIndex (\<lambda>p. id_p p = pid) (phases dat) = Some j"
  shows "movePhase hs dat pid j delta =
           (let ph = phases dat ! j; cur = tempSpan sch ph j; shifted = shiftSpan cur delta
            in if hasCollision d1 pid (fst shifted) (snd shifted) sch then Inr (d1, False)
               else Inr (d1\<lparr>phases := (phases dat)
                           [j := promote ph (fst cur) (snd cur) (fst shifted) (snd shifted)]\<rparr>, True))"
proof -
  obtain r d2 where again: "calculateSchedule hs dat = (r, d2)" "calculateSchedule hs d2 = (r, d2)"
    "phases d2 = phases dat" "\<forall>s. r = Some s \<longrightarrow> map id_p s = map id_p (phases dat)"
    using calculateSchedule_again [of hs dat] by blast
  have r: "r = Some sch" "d2 = d1" using again(1) assms(1) by simp_all
  have ids: "map id_p sch = map id_p (phases dat)" using again(4) r by simp
  have fnd: "find (\<lambda>i. id_p i = pid) sch = Some (sch ! j)"
    using find_by_ids [OF ids assms(2)] .
  show ?thesis
  proof (cases "isParallel (phases dat ! j) \<and> truthy (manualStartDate (phases dat ! j))")
    case True
    then show ?thesis using assms(1) again(3) r
      by (simp add: movePhase_def currentSpan_def tempSpan_def shiftSpan_def Let_def)
  next
    case False
    then show ?thesis using assms(1) again(2,3) r fnd
      by (auto simp: movePhase_def currentSpan_def tempSpan_def shiftSpan_def Let_def)
  qed
qed

lemma promote_eq:
  "promote ph a b c d = ph\<lparr>isParallel := True, manualStartDate := iso_d c, manualEndDate := iso_d d\<rparr>"
  by (cases "isParallel ph") (simp_all add: promote_def)

lemma applyGanttChange_move:
  assumes "deltaDays \<noteq> 0" and "type_d g = ''move''"
      and "findIndex (\<lambda>t. id_t t = timelineId g) (timelines st) = Some i"
      and "findIndex (\<lambda>p. id_p p = phaseId g) (phases (data (timelines st ! i))) = Some j"
      and "phaseId g \<noteq> anchorPhaseId (data (timelines st ! i))"
  shows "applyGanttChange st g deltaDays =
           (case movePhase (globalHolidays st) (data (timelines st ! i)) (phaseId g) j deltaDays of
              Inl err \<Rightarrow> Inl err
            | Inr (dat', False) \<Rightarrow> Inr (storeData st i dat', [RenderGantt])
            | Inr (dat', True) \<Rightarrow> Inr (storeData st i dat', [SaveState, RenderPhases, UpdateSchedule]))"
proof -
  have "id_p (phases (data (timelines st ! i)) ! j) = phaseId g"
    using findIndex_Some [OF assms(4)] by simp
  then show ?thesis using assms by (simp add: applyGanttChange_def Let_def)
qed

lemma move_outcome:
  assumes "deltaDays \<noteq> 0" and "type_d g = ''move''"
      and "findIndex (\<lambda>t. id_t t = timelineId g) (timelines st) = Some i"
      and "dat = data (timelines st ! i)"
      and "findIndex (\<lambda>p. id_p p = phaseId g) (phases dat) = Some j"
      and "phaseId g \<noteq> anchorPhaseId dat"
      and "calculateSchedule (globalHolidays st) dat = (Some sch, d1)"
  shows "applyGanttChange st g deltaDays =
           (let ph = phases dat ! j; shifted = shiftSpan (tempSpan sch ph j) deltaDays
            in if hasCollision d1 (phaseId g) (fst shifted) (snd shifted) sch
               then Inr (storeData st i d1, [RenderGantt])
               else Inr (storeData st i
                          (d1\<lparr>phases := (phases dat)
                               [j := ph\<lparr>isParallel := True, manualStartDate := iso_d (fst shifted),
                                        manualEndDate := iso_d (snd shifted)\<rparr>]\<rparr>),
                         [SaveState, RenderPhases, UpdateSchedule]))"
proof -
  have "applyGanttChange st g deltaDays =
           (case movePhase (globalHolidays st) dat (phaseId g) j deltaDays of
              Inl err \<Rightarrow> Inl err
            | Inr (dat', False) \<Rightarrow> Inr (storeData st i dat', [RenderGantt])
            | Inr (dat', True) \<Rightarrow> Inr (storeData st i dat', [SaveState, RenderPhases, UpdateSchedule]))"
    using applyGanttChange_move [OF assms(1,2,3)] assms(4,5,6) by simp
  then show ?thesis
    using movePhase_result [OF assms(7,5), of deltaDays]
    by (simp add: Let_def promote_eq)
qed

lemma move_error:
  assumes "deltaDays \<noteq> 0" and "type_d g = ''move''"
      and "findIndex (\<lambda>t. id_t t = timelineId g) (timelines st) = Some i"
      and "dat = data (timelines st ! i)"
      and "findIndex (\<lambda>p. id_p p = phaseId g) (phases dat) = Some j"
      and "phaseId g \<noteq> anchorPhaseId dat"
      and "calculateSchedule (globalHolidays st) dat = (None, d1)"
  shows "applyGanttChange st g deltaDays = Inl TypeError"
proof -
  have "applyGanttChange st g deltaDays =
           (case movePhase (globalHolidays st) dat (phaseId g) j deltaDays of
              Inl err \<Rightarrow> Inl err
            | Inr (dat', False) \<Rightarrow> Inr (storeData st i dat', [RenderGantt])
            | Inr (dat', True) \<Rightarrow> Inr (storeData st i dat', [SaveState, RenderPhases, UpdateSchedule]))"
    using applyGanttChange_move [OF assms(1,2,3)] assms(4,5,6) by simp
  then show ?thesis using movePhase_null [OF assms(7)] by simp
qed

lemma resizePhase_days: "days (resizePhase dat ph n d) = max 1 (n + d)"
  by (simp add: resizePhase_def Let_def)

lemma resizePhase_end:
  "isParallel ph \<Longrightarrow> manualStartDate ph = Ymd s \<Longrightarrow>
   manualEndDate (resizePhase dat ph n d) = Ymd (s + (n + d))"
  by (simp add: resizePhase_def Let_def iso_d_def)

lemma getActiveTimeline_shape: "sameShape st st' \<Longrightarrow> getActiveTimeline st' = getActiveTimeline st"
proof -
  assume s: "sameShape st st'"
  have "findIndex (\<lambda>t. id_t t = activeTimelineId st') (timelines st')
        = findIndex (\<lambda>y. y = activeTimelineId st') (map id_t (timelines st'))"
    by (rule findIndex_map)
  also have "\<dots> = findIndex (\<lambda>t. id_t t = activeTimelineId st) (timelines st)"
    using s by (simp add: sameShape_def findIndex_map [of id_t _ "timelines st"])
  finally have f: "findIndex (\<lambda>t. id_t t = activeTimelineId st') (timelines st')
        = findIndex (\<lambda>t. id_t t = activeTimelineId st) (timelines st)" .
  have "length (timelines st') = length (timelines st)"
    using s unfolding sameShape_def by (metis length_map)
  then have "timelines st' = [] \<longleftrightarrow> timelines st = []" by auto
  then show ?thesis using f by (simp add: getActiveTimeline_def)
qed

lemma storeData_shape: "sameShape st (storeData st a dat)"
proof (cases "a < length (timelines st)")
  case True
  then have "(map id_t (timelines st))[a := id_t (timelines st ! a)] = map id_t (timelines st)"
    by (simp add: list_update_same_conv)
  then show ?thesis by (simp add: sameShape_def storeData_def map_update)
next
  case False
  then show ?thesis by (simp add: sameShape_def storeData_def list_update_beyond)
qed

lemma sameShape_refl: "sameShape st st"
  by (simp add: sameShape_def)

lemma storeData_parallelAt:
  assumes "parallelAt st i j"
      and "a = i \<Longrightarrow> j < length (phases dat') \<and> isParallel (phases dat' ! j)"
  shows "parallelAt (storeData st a dat') i j"
proof (cases "a = i")
  case True
  then show ?thesis using assms by (simp add: parallelAt_def storeData_def)
next
  case False
  then show ?thesis using assms(1) by (simp add: parallelAt_def storeData_def)
qed

lemma onActivePhase_keeps:
  assumes "parallelAt st i j" and "onActivePhase st idx f = Inr st'"
      and "\<And>dat p. getActiveTimeline st = Some i \<Longrightarrow> idx = j \<Longrightarrow> isParallel p \<Longrightarrow> isParallel (f dat p)"
  shows "parallelAt st' i j \<and> sameShape st st'"
proof -
  obtain a where a: "getActiveTimeline st = Some a"
    using assms(2) by (auto simp: onActivePhase_def split: option.splits)
  let ?dat = "data (timelines st ! a)"
  have idx: "idx < length (phases ?dat)"
    and st': "st' = storeData st a (?dat\<lparr>phases := (phases ?dat)[idx := f ?dat (phases ?dat ! idx)]\<rparr>)"
    using assms(2) a by (auto simp: onActivePhase_def Let_def split: if_splits)
  have "parallelAt st' i j"
    unfolding st'
  proof (rule storeData_parallelAt [OF assms(1)])
    assume ai: "a = i"
    show "j < length (phases (?dat\<lparr>phases := (phases ?dat)[idx := f ?dat (phases ?dat ! idx)]\<rparr>))
          \<and> isParallel (phases (?dat\<lparr>phases := (phases ?dat)[idx := f ?dat (phases ?dat ! idx)]\<rparr>) ! j)"
    proof (cases "idx = j")
      case True
      have "isParallel (phases ?dat ! j)" using assms(1) ai by (simp add: parallelAt_def)
      then have "isParallel (f ?dat (phases ?dat ! j))"
        using a ai True by (intro assms(3)) simp_all
      then show ?thesis using True idx by simp
    next
      case False
      then show ?thesis using assms(1) ai by (simp add: parallelAt_def)
    qed
  qed
  then show ?thesis unfolding st' using storeData_shape by simp
qed

lemma onActiveData_keeps:
  assumes "parallelAt st i j" and "onActiveData st f = Inr st'"
      and "\<And>dat. j < length (phases dat) \<Longrightarrow> isParallel (phases dat ! j) \<Longrightarrow>
             j < length (phases (f dat)) \<and> isParallel (phases (f dat) ! j)"
  shows "parallelAt st' i j \<and> sameShape st st'"
proof -
  obtain a where a: "getActiveTimeline st = Some a"
    and st': "st' = storeData st a (f (data (timelines st ! a)))"
    using assms(2) by (auto simp: onActiveData_def split: option.splits)
  have "parallelAt st' i j"
    unfolding st'
  proof (rule storeData_parallelAt [OF assms(1)])
    assume "a = i"
    then show "j < length (phases (f (data (timelines st ! a))))
               \<and> isParallel (phases (f (data (timelines st ! a))) ! j)"
      using assms(1) by (intro assms(3)) (simp_all add: parallelAt_def)
  qed
  then show ?thesis unfolding st' using storeData_shape by simp
qed

lemma movePhase_keeps:
  assumes "movePhase hs dat pid m deltaDays = Inr (dat', b)"
  shows "length (phases dat') = length (phases dat)
         \<and> (\<forall>n < length (phases dat). isParallel (phases dat ! n) \<longrightarrow> isParallel (phases dat' ! n))"
proof -
  obtain r d1 where again: "calculateSchedule hs dat = (r, d1)" "calculateSchedule hs d1 = (r, d1)"
    "phases d1 = phases dat"
    using calculateSchedule_again [of hs dat] by blast
  let ?ph = "phases dat ! m"
  have cur: "currentSpan hs dat pid ?ph = Inl TypeError
             \<or> (\<exists>sp d. currentSpan hs dat pid ?ph = Inr (sp, d) \<and> calculateSchedule hs d = (r, d1))"
    using again(1,2) by (cases r) (auto simp: currentSpan_def Let_def split: option.splits)
  have "currentSpan hs dat pid ?ph \<noteq> Inl TypeError"
    using assms by (auto simp: movePhase_def Let_def)
  then obtain sp d where sp: "currentSpan hs dat pid ?ph = Inr (sp, d)" "calculateSchedule hs d = (r, d1)"
    using cur by blast
  obtain tS tE where tse: "sp = (tS, tE)" by (cases sp)
  let ?p = "promote ?ph tS tE (plusDays tS deltaDays) (plusDays tE deltaDays)"
  have mp: "movePhase hs dat pid m deltaDays =
              (case r of
                 None \<Rightarrow> Inl TypeError
               | Some cs \<Rightarrow>
                   if hasCollision d1 pid (plusDays tS deltaDays) (plusDays tE deltaDays) cs
                   then Inr (d1, False)
                   else Inr (d1\<lparr>phases := (phases d1)[m := ?p]\<rparr>, True))"
    using sp tse by (simp add: movePhase_def Let_def split: option.splits)
  have par: "isParallel ?p" by (simp add: promote_eq)
  have "dat' = d1 \<or> dat' = d1\<lparr>phases := (phases d1)[m := ?p]\<rparr>"
    using assms mp by (cases r) (auto split: if_splits)
  then have "dat' = d1 \<or> (\<exists>p. isParallel p \<and> dat' = d1\<lparr>phases := (phases d1)[m := p]\<rparr>)"
    using par by blast
  then show ?thesis
  proof
    assume "dat' = d1"
    then show ?thesis using again(3) by simp
  next
    assume "\<exists>p. isParallel p \<and> dat' = d1\<lparr>phases := (phases d1)[m := p]\<rparr>"
    then obtain p where p: "isParallel p" "dat' = d1\<lparr>phases := (phases d1)[m := p]\<rparr>" by blast
    show ?thesis unfolding p(2) using again(3) p(1)
      by (cases "m < length (phases dat)") (auto simp: nth_list_update)
  qed
qed

lemma resizePhase_isParallel [simp]: "isParallel (resizePhase dat ph n d) = isParallel ph"
  by (simp add: resizePhase_def Let_def)

lemma applyGanttChange_keeps:
  assumes "parallelAt st i j" and "applyGanttChange st g deltaDays = Inr (st', effs)"
  shows "parallelAt st' i j \<and> sameShape st st'"
proof (cases "deltaDays = 0")
  case True
  then show ?thesis using assms by (simp add: applyGanttChange_def sameShape_refl)
next
  case nz: False
  show ?thesis
  proof (cases "findIndex (\<lambda>t. id_t t = timelineId g) (timelines st)")
    case None
    then show ?thesis using assms nz by (simp add: applyGanttChange_def sameShape_refl)
  next
    case (Some a)
    let ?dat = "data (timelines st ! a)"
    show ?thesis
    proof (cases "findIndex (\<lambda>p. id_p p = phaseId g) (phases ?dat)")
      case None
      then show ?thesis using assms nz Some by (simp add: applyGanttChange_def sameShape_refl)
    next
      case (Some m)
      note m = this
      have keep: "\<And>dat'. (a = i \<Longrightarrow> j < length (phases dat') \<and> isParallel (phases dat' ! j))
                   \<Longrightarrow> parallelAt (storeData st a dat') i j \<and> sameShape st (storeData st a dat')"
        using storeData_parallelAt [OF assms(1)] storeData_shape by blast
      have here: "a = i \<Longrightarrow> j < length (phases ?dat) \<and> isParallel (phases ?dat ! j)"
        using assms(1) by (simp add: parallelAt_def)
      consider (resize) "type_d g = ''resize''"
        | (anchor) "type_d g \<noteq> ''resize''" "type_d g = ''move''" "id_p (phases ?dat ! m) = anchorPhaseId ?dat"
        | (move) "type_d g \<noteq> ''resize''" "type_d g = ''move''" "id_p (phases ?dat ! m) \<noteq> anchorPhaseId ?dat"
        | (other) "type_d g \<noteq> ''resize''" "type_d g \<noteq> ''move''"
        by blast
      then show ?thesis
      proof cases
        case resize
        let ?d = "?dat\<lparr>phases := (phases ?dat)[m := resizePhase ?dat (phases ?dat ! m) (initialDays g) deltaDays]\<rparr>"
        have "st' = storeData st a ?d"
          using assms(2) nz \<open>findIndex (\<lambda>t. id_t t = timelineId g) (timelines st) = Some a\<close> m resize
          by (simp add: applyGanttChange_def Let_def)
        moreover have "a = i \<Longrightarrow> j < length (phases ?d) \<and> isParallel (phases ?d ! j)"
          using here by (cases "m = j") (simp_all add: nth_list_update)
        ultimately show ?thesis using keep by blast
      next
        case anchor
        have "st' = storeData st a (moveAnchor ?dat deltaDays)"
          using assms(2) nz \<open>findIndex (\<lambda>t. id_t t = timelineId g) (timelines st) = Some a\<close> m anchor
          by (simp add: applyGanttChange_def Let_def)
        moreover have "a = i \<Longrightarrow> j < length (phases (moveAnchor ?dat deltaDays))
                       \<and> isParallel (phases (moveAnchor ?dat deltaDays) ! j)"
          using here by (simp add: moveAnchor_def Let_def)
        ultimately show ?thesis using keep by blast
      next
        case move
        obtain dat' b where mp: "movePhase (globalHolidays st) ?dat (phaseId g) m deltaDays = Inr (dat', b)"
          and st': "st' = storeData st a dat'"
          using assms(2) nz \<open>findIndex (\<lambda>t. id_t t = timelineId g) (timelines st) = Some a\<close> m move
          by (auto simp: applyGanttChange_def Let_def split: sum.splits bool.splits)
        have "a = i \<Longrightarrow> j < length (phases dat') \<and> isParallel (phases dat' ! j)"
          using movePhase_keeps [OF mp] here by auto
        then show ?thesis using keep st' by blast
      next
        case other
        then have "st' = st"
          using assms(2) nz \<open>findIndex (\<lambda>t. id_t t = timelineId g) (timelines st) = Some a\<close> m
          by (simp add: applyGanttChange_def Let_def)
        then show ?thesis using assms(1) sameShape_refl by simp
      qed
    qed
  qed
qed

lemma applyOp_keeps:
  assumes "parallelAt st i j" and "\<not> targetsMode st i j op" and "applyOp st op = Inr st'"
  shows "parallelAt st' i j \<and> sameShape st st'"
proof (cases op)
  case (SetName idx v)
  then show ?thesis using assms by (intro onActivePhase_keeps [where f = "\<lambda>dat p. p\<lparr>name_p := v\<rparr>" and idx = idx]) simp_all
next
  case (SetParallel idx checked)
  then show ?thesis using assms
    by (intro onActivePhase_keeps [where f = "\<lambda>dat p. setParallel dat p checked" and idx = idx]) simp_all
next
  case (SetManualStart idx v)
  then show ?thesis using assms
    by (intro onActivePhase_keeps [where f = "\<lambda>dat p. setManualStart p v" and idx = idx])
       (simp_all add: setManualStart_def Let_def split: jsnum.splits)
next
  case (SetManualEnd idx v)
  then show ?thesis using assms
    by (intro onActivePhase_keeps [where f = "\<lambda>dat p. setManualEnd p v" and idx = idx])
       (simp_all add: setManualEnd_def Let_def split: jsnum.splits)
next
  case (SetDays idx ro val)
  show ?thesis
  proof (cases ro)
    case True
    then show ?thesis using assms SetDays by (simp add: sameShape_refl)
  next
    case False
    then show ?thesis using assms SetDays
      by (intro onActivePhase_keeps [where f = "\<lambda>dat p. p\<lparr>days := max 1 val\<rparr>" and idx = idx])
         simp_all
  qed
next
  case (SetAnchorPhase v)
  then show ?thesis using assms
    by (intro onActiveData_keeps [where f = "\<lambda>dat. dat\<lparr>anchorPhaseId := v\<rparr>"]) simp_all
next
  case (SetAnchorType v)
  then show ?thesis using assms
    by (intro onActiveData_keeps [where f = "\<lambda>dat. dat\<lparr>anchorType := v\<rparr>"]) simp_all
next
  case (SetAnchorDate v)
  then show ?thesis using assms
    by (intro onActiveData_keeps [where f = "\<lambda>dat. dat\<lparr>anchorDate := v\<rparr>"]) simp_all
next
  case (AddPhase newId)
  then show ?thesis using assms
    by (intro onActiveData_keeps [where f = "\<lambda>dat. dat\<lparr>phases := phases dat @
        [\<lparr> id_p = newId, name_p = ''New Phase'', days = 5, isParallel = False,
           manualStartDate = NoDate, manualEndDate = NoDate \<rparr>]\<rparr>"])
       (simp_all add: nth_append)
next
  case (SetHolidays hs)
  then have "st' = st\<lparr>globalHolidays := hs\<rparr>" using assms(3) by simp
  then show ?thesis using assms(1) by (simp add: parallelAt_def sameShape_def)
next
  case (Recalculate a)
  show ?thesis
  proof (cases "a < length (timelines st)")
    case True
    let ?dat = "data (timelines st ! a)"
    obtain r d1 where again: "calculateSchedule (globalHolidays st) ?dat = (r, d1)" "phases d1 = phases ?dat"
      using calculateSchedule_again [of "globalHolidays st" ?dat] by blast
    have st': "st' = storeData st a d1" using assms(3) Recalculate True again(1) by simp
    have "a = i \<Longrightarrow> j < length (phases d1) \<and> isParallel (phases d1 ! j)"
      using assms(1) again(2) by (simp add: parallelAt_def)
    then show ?thesis unfolding st' using storeData_parallelAt [OF assms(1)] storeData_shape by blast
  next
    case False
    then show ?thesis using assms Recalculate by (simp add: sameShape_refl)
  qed
next
  case (GanttChange g deltaDays)
  then obtain effs where "applyGanttChange st g deltaDays = Inr (st', effs)"
    using assms(3) by (auto split: sum.splits)
  then show ?thesis using applyGanttChange_keeps [OF assms(1)] by blast
qed

lemma targetsMode_shape: "sameShape st st' \<Longrightarrow> targetsMode st' i j op = targetsMode st i j op"
  by (cases op) (simp_all add: getActiveTimeline_shape)

lemma applyOps_keeps:
  assumes "parallelAt st i j" and "\<forall>op \<in> set ops. \<not> targetsMode st i j op"
  shows "parallelAt (applyOps st ops) i j"
  using assms
proof (induction ops arbitrary: st)
  case Nil
  then show ?case by simp
next
  case (Cons op ops)
  show ?case
  proof (cases "applyOp st op")
    case (Inl err)
    then show ?thesis using Cons by simp
  next
    case (Inr st1)
    have "\<not> targetsMode st i j op" using Cons.prems(2) by simp
    then have k: "parallelAt st1 i j" "sameShape st st1"
      using applyOp_keeps [OF Cons.prems(1) _ Inr] by simp_all
    have "\<forall>op \<in> set ops. \<not> targetsMode st1 i j op"
      using Cons.prems(2) targetsMode_shape [OF k(2)] by simp
    from Cons.IH [OF k(1) this] show ?thesis using Inr by simp
  qed
qed

text \<open>Evaluation of the examples.\<close>

lemmas ex_defs = exState_def exDrag_def exData_def exPhases_def mkPhase_def

lemmas run_defs = applyGanttChange_def movePhase_def currentSpan_def hasCollision_def promote_def
  resizePhase_def moveAnchor_def storeData_def iso_d_def
  calculateSchedule.simps scheduleAt_def anchorSpan_def
  ensureWorkingDayBackward.simps ensureWorkingDayForward.simps
  subBusinessDays.simps addBusinessDays.simps isWorkingDay.simps
  processParallel_def spread_def Let_def

lemma ex_rejected:
  "applyGanttChange exState (exDrag ''move'' ''4'' 2) (- 7) = Inr (exState, [RenderGantt])"
  by (simp add: ex_defs run_defs)

lemma ex_accepted':
  "applyGanttChange exState (exDrag ''move'' ''1'' 3) 1
   = Inr (movedState, [SaveState, RenderPhases, UpdateSchedule])"
  by (simp add: movedState_def ex_defs run_defs)

text \<open>
  What a move of a phase other than the anchor does, in terms of \<open>tempSpan\<close>: when it
  takes the collision exit, and what a committed move writes.
\<close>

lemma collision_exit_iff:
  assumes "deltaDays \<noteq> 0" and "type_d g = ''move''"
      and "findIndex (\<lambda>t. id_t t = timelineId g) (timelines st) = Some i"
      and "dat = data (timelines st ! i)"
      and "findIndex (\<lambda>p. id_p p = phaseId g) (phases dat) = Some j"
      and "phaseId g \<noteq> anchorPhaseId dat"
      and "findIndex (\<lambda>p. id_p p = anchorPhaseId dat) (phases dat) = Some k"
      and "truthy (anchorDate dat)"
      and "distinct (map id_p (phases dat))"
  shows "\<exists>sch. calculateSchedule (globalHolidays st) dat = (Some sch, dat)
           \<and> length sch = length (phases dat)
           \<and> ((applyGanttChange st g deltaDays = Inr (st, [RenderGantt])) \<longleftrightarrow>
                (\<exists>m < length (phases dat). m \<noteq> j \<and> m \<noteq> k \<and> \<not> isParallel (phases dat ! m)
                   \<and> overlaps (shiftSpan (tempSpan sch (phases dat ! j) j) deltaDays)
                               (startDate (sch ! m), endDate (sch ! m))))
           \<and> (applyGanttChange st g deltaDays \<noteq> Inr (st, [RenderGantt]) \<longrightarrow>
                (\<exists>st'. applyGanttChange st g deltaDays
                         = Inr (st', [SaveState, RenderPhases, UpdateSchedule])))"
proof -
  let ?hs = "globalHolidays st"
  let ?sch = "scheduleAt ?hs dat k"
  let ?shifted = "shiftSpan (tempSpan ?sch (phases dat ! j) j) deltaDays"
  have i: "i < length (timelines st)" using findIndex_Some [OF assms(3)] by simp
  have k: "k < length (phases dat)" using findIndex_Some [OF assms(7)] by simp
  have sch: "calculateSchedule ?hs dat = (Some ?sch, dat)"
    using assms(8,7) by (rule calculateSchedule_found)
  have ids: "map id_p ?sch = map id_p (phases dat)" using k by (rule scheduleAt_ids)
  then have len: "length ?sch = length (phases dat)" by (rule map_eq_imp_length_eq)
  have same: "storeData st i dat = st" using i assms(4) by (simp add: storeData_same)
  have out: "applyGanttChange st g deltaDays =
           (if hasCollision dat (phaseId g) (fst ?shifted) (snd ?shifted) ?sch
            then Inr (st, [RenderGantt])
            else Inr (storeData st i
                       (dat\<lparr>phases := (phases dat)
                            [j := (phases dat ! j)\<lparr>isParallel := True, manualStartDate := iso_d (fst ?shifted),
                                     manualEndDate := iso_d (snd ?shifted)\<rparr>]\<rparr>),
                      [SaveState, RenderPhases, UpdateSchedule]))"
    using move_outcome [OF assms(1,2,3,4,5,6) sch] same by (simp add: Let_def)
  have col: "hasCollision dat (phaseId g) (fst ?shifted) (snd ?shifted) ?sch \<longleftrightarrow>
        (\<exists>m < length (phases dat). m \<noteq> j \<and> m \<noteq> k \<and> \<not> isParallel (phases dat ! m)
           \<and> overlaps ?shifted (startDate (?sch ! m), endDate (?sch ! m)))"
  proof -
    have "hasCollision dat (phaseId g) (fst ?shifted) (snd ?shifted) ?sch \<longleftrightarrow>
         (\<exists>m < length (phases dat). id_p (phases dat ! m) \<noteq> phaseId g \<and> \<not> isParallel (phases dat ! m)
              \<and> id_p (phases dat ! m) \<noteq> anchorPhaseId dat
              \<and> timeLe (fst ?shifted) (endDate (?sch ! m)) \<and> timeLe (startDate (?sch ! m)) (snd ?shifted))"
      using ids assms(9) by (rule hasCollision_iff)
    also have "\<dots> \<longleftrightarrow> (\<exists>m < length (phases dat). m \<noteq> j \<and> m \<noteq> k \<and> \<not> isParallel (phases dat ! m)
           \<and> overlaps ?shifted (startDate (?sch ! m), endDate (?sch ! m)))"
      using distinct_index [OF assms(9,5)] distinct_index [OF assms(9,7)]
      by (auto simp: overlaps_def)
    finally show ?thesis .
  qed
  show ?thesis
    using sch len out col by (intro exI [of _ ?sch]) auto
qed

lemma commit_writes:
  assumes "deltaDays \<noteq> 0" and "type_d g = ''move''"
      and "findIndex (\<lambda>t. id_t t = timelineId g) (timelines st) = Some i"
      and "dat = data (timelines st ! i)"
      and "findIndex (\<lambda>p. id_p p = phaseId g) (phases dat) = Some j"
      and "phaseId g \<noteq> anchorPhaseId dat"
      and "applyGanttChange st g deltaDays = Inr (st', [SaveState, RenderPhases, UpdateSchedule])"
  shows "\<exists>sch d1. calculateSchedule (globalHolidays st) dat = (Some sch, d1)
           \<and> isParallel (phases (data (timelines st' ! i)) ! j)
           \<and> manualStartDate (phases (data (timelines st' ! i)) ! j)
               = iso_d (fst (shiftSpan (tempSpan sch (phases dat ! j) j) deltaDays))
           \<and> manualEndDate (phases (data (timelines st' ! i)) ! j)
               = iso_d (snd (shiftSpan (tempSpan sch (phases dat ! j) j) deltaDays))
           \<and> (\<forall>ops. (\<forall>op \<in> set ops. \<not> targetsMode st' i j op)
                  \<longrightarrow> parallelAt (applyOps st' ops) i j)"
proof -
  let ?hs = "globalHolidays st"
  have i: "i < length (timelines st)" using findIndex_Some [OF assms(3)] by simp
  have j: "j < length (phases dat)" using findIndex_Some [OF assms(5)] by simp
  obtain r d1 where r: "calculateSchedule ?hs dat = (r, d1)" "phases d1 = phases dat"
    using calculateSchedule_again [of ?hs dat] by blast
  show ?thesis
  proof (cases r)
    case None
    then have "applyGanttChange st g deltaDays = Inl TypeError"
      using move_error [OF assms(1,2,3,4,5,6)] r(1) by simp
    then show ?thesis using assms(7) by simp
  next
    case (Some sch)
    let ?shifted = "shiftSpan (tempSpan sch (phases dat ! j) j) deltaDays"
    let ?ph = "(phases dat ! j)\<lparr>isParallel := True, manualStartDate := iso_d (fst ?shifted),
                                 manualEndDate := iso_d (snd ?shifted)\<rparr>"
    have out: "applyGanttChange st g deltaDays =
           (if hasCollision d1 (phaseId g) (fst ?shifted) (snd ?shifted) sch
            then Inr (storeData st i d1, [RenderGantt])
            else Inr (storeData st i (d1\<lparr>phases := (phases dat)[j := ?ph]\<rparr>),
                      [SaveState, RenderPhases, UpdateSchedule]))"
      using move_outcome [OF assms(1,2,3,4,5,6)] r(1) Some by (simp add: Let_def)
    have st': "st' = storeData st i (d1\<lparr>phases := (phases dat)[j := ?ph]\<rparr>)"
      using out assms(7) by (simp split: if_splits)
    have ph: "phases (data (timelines st' ! i)) ! j = ?ph"
      using st' i j by (simp add: storeData_def)
    have pa: "parallelAt st' i j"
      using st' i j by (simp add: parallelAt_def storeData_def)
    have later: "\<forall>ops. (\<forall>op \<in> set ops. \<not> targetsMode st' i j op)
                  \<longrightarrow> parallelAt (applyOps st' ops) i j"
      using applyOps_keeps [OF pa] by blast
    show ?thesis using r(1) Some ph later by simp
  qed
qed

lemma precedingChain_length: "length (precedingChain hs dat ref ps) = length ps"
  using precedingChain_ids [of hs dat ref ps] by (rule map_eq_imp_length_eq)

lemma succeedingChain_length: "length (succeedingChain hs dat ref ps) = length ps"
  using succeedingChain_ids [of hs dat ref ps] by (rule map_eq_imp_length_eq)

lemma precedingChain_nth_parallel:
  "m < length ps \<Longrightarrow> isParallel (ps ! m) \<Longrightarrow>
   processParallel hs dat (ps ! m) = Some (precedingChain hs dat ref ps ! m)"
proof (induction ps arbitrary: m ref)
  case Nil
  then show ?case by simp
next
  case (Cons p ps)
  show ?case
  proof (cases m)
    case 0
    then have "isParallel p" using Cons.prems by simp
    then obtain it where "processParallel hs dat p = Some it"
      using processParallel_Some by blast
    then show ?thesis using 0 by simp
  next
    case (Suc n)
    then have n: "n < length ps" "isParallel (ps ! n)" using Cons.prems by simp_all
    show ?thesis
    proof (cases "isParallel p")
      case True
      then obtain it where "processParallel hs dat p = Some it"
        using processParallel_Some by blast
      then show ?thesis using Suc Cons.IH [OF n] by simp
    next
      case False
      then show ?thesis using Suc Cons.IH [OF n] by (simp add: processParallel_None Let_def)
    qed
  qed
qed

lemma succeedingChain_nth_parallel:
  "m < length ps \<Longrightarrow> isParallel (ps ! m) \<Longrightarrow>
   processParallel hs dat (ps ! m) = Some (succeedingChain hs dat ref ps ! m)"
proof (induction ps arbitrary: m ref)
  case Nil
  then show ?case by simp
next
  case (Cons p ps)
  show ?case
  proof (cases m)
    case 0
    then have "isParallel p" using Cons.prems by simp
    then obtain it where "processParallel hs dat p = Some it"
      using processParallel_Some by blast
    then show ?thesis using 0 by simp
  next
    case (Suc n)
    then have n: "n < length ps" "isParallel (ps ! n)" using Cons.prems by simp_all
    show ?thesis
    proof (cases "isParallel p")
      case True
      then obtain it where "processParallel hs dat p = Some it"
        using processParallel_Some by blast
      then show ?thesis using Suc Cons.IH [OF n] by simp
    next
      case False
      then show ?thesis using Suc Cons.IH [OF n] by (simp add: processParallel_None Let_def)
    qed
  qed
qed

lemma scheduleAt_nth_parallel:
  assumes "k < length (phases dat)" and "m < length (phases dat)" and "m \<noteq> k"
      and "isParallel (phases dat ! m)"
  shows "processParallel hs dat (phases dat ! m) = Some (scheduleAt hs dat k ! m)"
proof -
  let ?ps = "phases dat"
  obtain s e where se: "anchorSpan hs dat (?ps ! k) = (s, e)" by (cases "anchorSpan hs dat (?ps ! k)")
  let ?pre = "precedingChain hs dat s (rev (take k ?ps))"
  let ?suc = "succeedingChain hs dat e (drop (Suc k) ?ps)"
  let ?a = "spread (?ps ! k) s e (Num (days (?ps ! k)))"
  have sch: "scheduleAt hs dat k = rev ?pre @ ?a # ?suc"
    using scheduleAt_unfold [OF se] by simp
  have lp: "length ?pre = k" using assms(1) by (simp add: precedingChain_length)
  show ?thesis
  proof (cases "m < k")
    case True
    let ?n = "k - Suc m"
    have n: "?n < length (rev (take k ?ps))" using True assms(1) by simp
    have el: "rev (take k ?ps) ! ?n = ?ps ! m"
      using True assms(1) by (simp add: rev_nth)
    have "processParallel hs dat (rev (take k ?ps) ! ?n) = Some (?pre ! ?n)"
      using n assms(4) el by (intro precedingChain_nth_parallel) simp_all
    moreover have "scheduleAt hs dat k ! m = ?pre ! ?n"
      unfolding sch using True lp by (simp add: nth_append rev_nth)
    ultimately show ?thesis using el by simp
  next
    case False
    then have gt: "k < m" using assms(3) by simp
    let ?n = "m - Suc k"
    have n: "?n < length (drop (Suc k) ?ps)" using gt assms(2) by simp
    have el: "drop (Suc k) ?ps ! ?n = ?ps ! m" using gt assms(2) by simp
    have "processParallel hs dat (drop (Suc k) ?ps ! ?n) = Some (?suc ! ?n)"
      using n assms(4) el by (intro succeedingChain_nth_parallel) simp_all
    moreover have "scheduleAt hs dat k ! m = ?suc ! ?n"
      unfolding sch using gt lp by (simp add: nth_append)
    ultimately show ?thesis using el by simp
  qed
qed

lemma tempSpan_resolved:
  assumes "k < length (phases dat)" and "j < length (phases dat)" and "j \<noteq> k"
      and "isParallel (phases dat ! j) \<and> truthy (manualStartDate (phases dat ! j))
           \<longrightarrow> truthy (manualEndDate (phases dat ! j))"
  shows "tempSpan (scheduleAt hs dat k) (phases dat ! j) j = resolvedSpan (scheduleAt hs dat k) j"
proof (cases "isParallel (phases dat ! j) \<and> truthy (manualStartDate (phases dat ! j))")
  case False
  then show ?thesis by (auto simp: tempSpan_def resolvedSpan_def)
next
  case True
  then have me: "truthy (manualEndDate (phases dat ! j))" using assms(4) by simp
  let ?s = "newDate (manualStartDate (phases dat ! j))"
  let ?e = "newDate (manualEndDate (phases dat ! j))"
  have "processParallel hs dat (phases dat ! j) = Some (scheduleAt hs dat k ! j)"
    using assms(1,2,3) True by (intro scheduleAt_nth_parallel) simp_all
  then have "scheduleAt hs dat k ! j = spread (phases dat ! j) ?s ?e (getDaysDiff ?s ?e)"
    using True me by (simp add: processParallel_def Let_def)
  then have "startDate (scheduleAt hs dat k ! j) = ?s" and "endDate (scheduleAt hs dat k ! j) = ?e"
    by simp_all
  then show ?thesis using True by (simp add: tempSpan_def resolvedSpan_def)
qed

text \<open>
  Outside the one defective case, a parallel phase with a manual start date and no manual
  end date, the move follows the collision rule and the promotion rule on the resolved
  spans.
\<close>

lemma collision_rule_with_end_date:
  assumes "deltaDays \<noteq> 0" and "type_d g = ''move''"
      and "findIndex (\<lambda>t. id_t t = timelineId g) (timelines st) = Some i"
      and "dat = data (timelines st ! i)"
      and "findIndex (\<lambda>p. id_p p = phaseId g) (phases dat) = Some j"
      and "phaseId g \<noteq> anchorPhaseId dat"
      and "findIndex (\<lambda>p. id_p p = anchorPhaseId dat) (phases dat) = Some k"
      and "truthy (anchorDate dat)"
      and "distinct (map id_p (phases dat))"
      and "isParallel (phases dat ! j) \<and> truthy (manualStartDate (phases dat ! j))
           \<longrightarrow> truthy (manualEndDate (phases dat ! j))"
  shows "\<exists>sch. calculateSchedule (globalHolidays st) dat = (Some sch, dat)
           \<and> length sch = length (phases dat)
           \<and> ((applyGanttChange st g deltaDays = Inr (st, [RenderGantt])) \<longleftrightarrow>
                (\<exists>m < length (phases dat). m \<noteq> j \<and> m \<noteq> k \<and> \<not> isParallel (phases dat ! m)
                   \<and> overlaps (shiftSpan (resolvedSpan sch j) deltaDays) (resolvedSpan sch m)))
           \<and> (applyGanttChange st g deltaDays \<noteq> Inr (st, [RenderGantt]) \<longrightarrow>
                (\<exists>st'. applyGanttChange st g deltaDays
                         = Inr (st', [SaveState, RenderPhases, UpdateSchedule])))"
proof -
  let ?sch = "scheduleAt (globalHolidays st) dat k"
  have j: "j < length (phases dat)" "id_p (phases dat ! j) = phaseId g"
    using findIndex_Some [OF assms(5)] by simp_all
  have k: "k < length (phases dat)" "id_p (phases dat ! k) = anchorPhaseId dat"
    using findIndex_Some [OF assms(7)] by simp_all
  have jk: "j \<noteq> k" using j(2) k(2) assms(6) by auto
  have sch: "calculateSchedule (globalHolidays st) dat = (Some ?sch, dat)"
    using assms(8,7) by (rule calculateSchedule_found)
  have ts: "tempSpan ?sch (phases dat ! j) j = resolvedSpan ?sch j"
    using k(1) j(1) jk assms(10) by (rule tempSpan_resolved)
  obtain sch' where s': "calculateSchedule (globalHolidays st) dat = (Some sch', dat)"
    "length sch' = length (phases dat)"
    "(applyGanttChange st g deltaDays = Inr (st, [RenderGantt])) \<longleftrightarrow>
                (\<exists>m < length (phases dat). m \<noteq> j \<and> m \<noteq> k \<and> \<not> isParallel (phases dat ! m)
                   \<and> overlaps (shiftSpan (tempSpan sch' (phases dat ! j) j) deltaDays)
                               (startDate (sch' ! m), endDate (sch' ! m)))"
    "applyGanttChange st g deltaDays \<noteq> Inr (st, [RenderGantt]) \<longrightarrow>
                (\<exists>st'. applyGanttChange st g deltaDays
                         = Inr (st', [SaveState, RenderPhases, UpdateSchedule]))"
    using collision_exit_iff [OF assms(1-9)] by blast
  have eq: "sch' = ?sch" using s'(1) sch by simp
  show ?thesis
    using s' ts unfolding eq by (intro exI [of _ ?sch]) (simp add: resolvedSpan_def)
qed

lemma promotion_with_end_date:
  assumes "deltaDays \<noteq> 0" and "type_d g = ''move''"
      and "findIndex (\<lambda>t. id_t t = timelineId g) (timelines st) = Some i"
      and "dat = data (timelines st ! i)"
      and "findIndex (\<lambda>p. id_p p = phaseId g) (phases dat) = Some j"
      and "phaseId g \<noteq> anchorPhaseId dat"
      and "findIndex (\<lambda>p. id_p p = anchorPhaseId dat) (phases dat) = Some k"
      and "isParallel (phases dat ! j) \<and> truthy (manualStartDate (phases dat ! j))
           \<longrightarrow> truthy (manualEndDate (phases dat ! j))"
      and "applyGanttChange st g deltaDays = Inr (st', [SaveState, RenderPhases, UpdateSchedule])"
  shows "\<exists>sch. calculateSchedule (globalHolidays st) dat = (Some sch, dat)
           \<and> isParallel (phases (data (timelines st' ! i)) ! j)
           \<and> manualStartDate (phases (data (timelines st' ! i)) ! j)
               = iso_d (fst (shiftSpan (resolvedSpan sch j) deltaDays))
           \<and> manualEndDate (phases (data (timelines st' ! i)) ! j)
               = iso_d (snd (shiftSpan (resolvedSpan sch j) deltaDays))
           \<and> (\<forall>ops. (\<forall>op \<in> set ops. \<not> targetsMode st' i j op)
                  \<longrightarrow> parallelAt (applyOps st' ops) i j)"
proof -
  let ?sch = "scheduleAt (globalHolidays st) dat k"
  have j: "j < length (phases dat)" "id_p (phases dat ! j) = phaseId g"
    using findIndex_Some [OF assms(5)] by simp_all
  have k: "k < length (phases dat)" "id_p (phases dat ! k) = anchorPhaseId dat"
    using findIndex_Some [OF assms(7)] by simp_all
  have jk: "j \<noteq> k" using j(2) k(2) assms(6) by auto
  have ts: "tempSpan ?sch (phases dat ! j) j = resolvedSpan ?sch j"
    using k(1) j(1) jk assms(8) by (rule tempSpan_resolved)
  obtain sch' d1 where s': "calculateSchedule (globalHolidays st) dat = (Some sch', d1)"
    "isParallel (phases (data (timelines st' ! i)) ! j)"
    "manualStartDate (phases (data (timelines st' ! i)) ! j)
               = iso_d (fst (shiftSpan (tempSpan sch' (phases dat ! j) j) deltaDays))"
    "manualEndDate (phases (data (timelines st' ! i)) ! j)
               = iso_d (snd (shiftSpan (tempSpan sch' (phases dat ! j) j) deltaDays))"
    "\<forall>ops. (\<forall>op \<in> set ops. \<not> targetsMode st' i j op) \<longrightarrow> parallelAt (applyOps st' ops) i j"
    using commit_writes [OF assms(1-6) assms(9)] by blast
  obtain r d2 where again: "calculateSchedule (globalHolidays st) dat = (r, d2)"
    "r = None \<longleftrightarrow> \<not> truthy (anchorDate dat) \<or> phases dat = []"
    using calculateSchedule_again [of "globalHolidays st" dat] by blast
  have "truthy (anchorDate dat)" using again s'(1) by auto
  then have "calculateSchedule (globalHolidays st) dat = (Some ?sch, dat)"
    using assms(7) by (rule calculateSchedule_found)
  then have eq: "sch' = ?sch" "d1 = dat" using s'(1) by simp_all
  show ?thesis
    using s' ts unfolding eq by (intro exI [of _ ?sch]) simp
qed

section \<open>Properties\<close>

subsection \<open>C1\<close>

text \<open>
  C1. For a timeline whose anchor date is a calendar date and whose anchor phase is found
  and sequential, the engine returns one entry per phase, in list order, and the spans of
  the sequential entries form a chain in list order: before the anchor each sequential
  phase ends on the working day just before the next sequential phase (or the anchor)
  starts, after the anchor each starts on the working day just after the previous one
  ends. Dropping the parallel phases from the list gives the same entries for the
  sequential phases. This holds for all stored durations, the positive ones included.
\<close>

theorem C1_chain_monotonicity:
  assumes "anchorDate dat = Ymd a"
      and "findIndex (\<lambda>p. id_p p = anchorPhaseId dat) (phases dat) = Some k"
      and "\<not> isParallel (phases dat ! k)"
  shows "\<exists>res res'.
           calculateSchedule hs dat = (Some res, dat)
         \<and> map id_p res = map id_p (phases dat)
         \<and> chainOK hs (seqSpans res)
         \<and> calculateSchedule hs (dat\<lparr>phases := filter (\<lambda>p. \<not> isParallel p) (phases dat)\<rparr>)
             = (Some res', dat\<lparr>phases := filter (\<lambda>p. \<not> isParallel p) (phases dat)\<rparr>)
         \<and> res' = filter (\<lambda>i. \<not> isParallel i) res"
proof -
  let ?Q = "\<lambda>p::phase. \<not> isParallel p"
  let ?d = "dat\<lparr>phases := filter ?Q (phases dat)\<rparr>"
  let ?k = "length (filter ?Q (take k (phases dat)))"
  have t: "truthy (anchorDate dat)" using assms(1) by simp
  have k: "k < length (phases dat)" using findIndex_Some [OF assms(2)] by simp
  have r: "calculateSchedule hs dat = (Some (scheduleAt hs dat k), dat)"
    using t assms(2) by (rule calculateSchedule_found)
  have "findIndex (\<lambda>p. id_p p = anchorPhaseId ?d) (phases ?d) = Some ?k"
    using scheduleAt_filter(1) [OF assms(2,3)] by simp
  moreover have "truthy (anchorDate ?d)" using t by simp
  ultimately have r': "calculateSchedule hs ?d = (Some (scheduleAt hs ?d ?k), ?d)"
    by (intro calculateSchedule_found)
  have "scheduleAt hs ?d ?k = filter (\<lambda>i. \<not> isParallel i) (scheduleAt hs dat k)"
    using scheduleAt_filter(2) [OF assms(2,3)] .
  then show ?thesis
    using r r' scheduleAt_ids [OF k] scheduleAt_chain [OF assms(1) k assms(3)] by simp
qed

theorem C1_witness:
  "anchorDate exData = Ymd 8
   \<and> findIndex (\<lambda>p. id_p p = anchorPhaseId exData) (phases exData) = Some 2
   \<and> \<not> isParallel (phases exData ! 2)
   \<and> (\<exists>res res'.
           calculateSchedule [] exData = (Some res, exData)
         \<and> map id_p res = map id_p (phases exData)
         \<and> chainOK [] (seqSpans res)
         \<and> calculateSchedule [] (exData\<lparr>phases := filter (\<lambda>p. \<not> isParallel p) (phases exData)\<rparr>)
             = (Some res', exData\<lparr>phases := filter (\<lambda>p. \<not> isParallel p) (phases exData)\<rparr>)
         \<and> res' = filter (\<lambda>i. \<not> isParallel i) res)"
proof -
  have a: "anchorDate exData = Ymd 8" by (simp add: exData_def)
  have b: "findIndex (\<lambda>p. id_p p = anchorPhaseId exData) (phases exData) = Some 2"
    by (simp add: exData_def exPhases_def mkPhase_def)
  have c: "\<not> isParallel (phases exData ! 2)"
    by (simp add: exData_def exPhases_def mkPhase_def)
  show ?thesis using C1_chain_monotonicity [OF a b c, of "[]"] a b c by simp
qed

subsection \<open>C2\<close>

text \<open>
  C2. In the example the second phase is parallel with a manual start date on day 4 and
  no manual end date; the engine resolves its span to days 4 to 6, and the fourth phase,
  sequential and not the anchor, spans days 11 to 12. Moved by 7 days the second phase
  would span days 11 to 13 and meet the fourth phase, so the move must be rejected. The
  code commits it: it reads the missing manual end date as an invalid date, and no
  comparison with an invalid date holds.
\<close>

theorem C2_collision_missed:
  "calculateSchedule (globalHolidays exState) exData = (Some (scheduleAt [] exData 2), exData)
   \<and> resolvedSpan (scheduleAt [] exData 2) 1 = (Day 4, Day 6)
   \<and> resolvedSpan (scheduleAt [] exData 2) 3 = (Day 11, Day 12)
   \<and> shiftSpan (resolvedSpan (scheduleAt [] exData 2) 1) 7 = (Day 11, Day 13)
   \<and> overlaps (shiftSpan (resolvedSpan (scheduleAt [] exData 2) 1) 7)
               (resolvedSpan (scheduleAt [] exData 2) 3)
   \<and> \<not> isParallel (phases exData ! 3)
   \<and> id_p (phases exData ! 3) \<noteq> anchorPhaseId exData
   \<and> id_p (phases exData ! 3) \<noteq> phaseId (exDrag ''move'' ''2'' 3)
   \<and> tempSpan (scheduleAt [] exData 2) (phases exData ! 1) 1 = (Day 4, InvalidDate)
   \<and> applyGanttChange exState (exDrag ''move'' ''2'' 3) 7
       = Inr (movedSecond (Ymd 11) NaNStr, [SaveState, RenderPhases, UpdateSchedule])
   \<and> applyGanttChange exState (exDrag ''move'' ''2'' 3) 7 \<noteq> Inr (exState, [RenderGantt])"
  by (simp add: movedSecond_def resolvedSpan_def tempSpan_def shiftSpan_def overlaps_def
      ex_defs run_defs)

subsection \<open>C3\<close>

text \<open>
  C3. Moved by 3 days, the second example phase would span days 7 to 9, which meets no
  sequential phase other than the anchor; the move is committed. The phase is parallel
  and its manual start date is day 7, but its manual end date is the text of an invalid
  date, not day 9.
\<close>

theorem C3_proposed_end_lost:
  "resolvedSpan (scheduleAt [] exData 2) 1 = (Day 4, Day 6)
   \<and> shiftSpan (resolvedSpan (scheduleAt [] exData 2) 1) 3 = (Day 7, Day 9)
   \<and> \<not> overlaps (Day 7, Day 9) (resolvedSpan (scheduleAt [] exData 2) 0)
   \<and> \<not> overlaps (Day 7, Day 9) (resolvedSpan (scheduleAt [] exData 2) 3)
   \<and> applyGanttChange exState (exDrag ''move'' ''2'' 3) 3
       = Inr (movedSecond (Ymd 7) NaNStr, [SaveState, RenderPhases, UpdateSchedule])
   \<and> manualEndDate (phases (data (timelines (movedSecond (Ymd 7) NaNStr) ! 0)) ! 1) = NaNStr
   \<and> iso_d (Day 9) = Ymd 9 \<and> NaNStr \<noteq> Ymd 9"
  by (simp add: movedSecond_def resolvedSpan_def shiftSpan_def overlaps_def ex_defs run_defs)

subsection \<open>C4\<close>

text \<open>
  C4. Running the engine on the data object it has just returned gives the same result and
  leaves the object as it is; the first run leaves the phase list, the anchor date, the
  anchor edge and the sort order as they were, and changes the data only by setting
  \<open>anchorPhaseId\<close> to the id of the first phase when the stored id matches no phase.
\<close>

theorem C4_pure_idempotent:
  "\<exists>r d1. calculateSchedule hs dat = (r, d1)
        \<and> calculateSchedule hs d1 = (r, d1)
        \<and> phases d1 = phases dat \<and> anchorDate d1 = anchorDate dat
        \<and> anchorType d1 = anchorType dat \<and> sortOrder d1 = sortOrder dat
        \<and> (d1 = dat
           \<or> (findIndex (\<lambda>p. id_p p = anchorPhaseId dat) (phases dat) = None
              \<and> d1 = dat\<lparr>anchorPhaseId := id_p (phases dat ! 0)\<rparr>))"
  using calculateSchedule_again [of hs dat] by blast

theorem C4_witness:
  "\<exists>r d1. calculateSchedule [] staleData = (r, d1)
        \<and> calculateSchedule [] d1 = (r, d1)
        \<and> phases d1 = phases staleData \<and> anchorDate d1 = anchorDate staleData
        \<and> anchorType d1 = anchorType staleData \<and> sortOrder d1 = sortOrder staleData
        \<and> (d1 = staleData
           \<or> (findIndex (\<lambda>p. id_p p = anchorPhaseId staleData) (phases staleData) = None
              \<and> d1 = staleData\<lparr>anchorPhaseId := id_p (phases staleData ! 0)\<rparr>))"
  using C4_pure_idempotent [of "[]" staleData] .

subsection \<open>C5\<close>

text \<open>
  C5 (as amended). If an anchor date is set, the phase list is not empty and the stored
  anchor id matches no phase, the engine returns what it returns when the anchor id is the
  id of the first phase, the result is a schedule, and the data object leaves the call with
  its anchor id set to the id of the first phase.
\<close>

theorem C5_anchor_self_heal:
  assumes "truthy (anchorDate dat)" and "phases dat \<noteq> []"
      and "findIndex (\<lambda>p. id_p p = anchorPhaseId dat) (phases dat) = None"
  shows "calculateSchedule hs dat = calculateSchedule hs (dat\<lparr>anchorPhaseId := id_p (phases dat ! 0)\<rparr>)
         \<and> (\<exists>res. calculateSchedule hs dat = (Some res, dat\<lparr>anchorPhaseId := id_p (phases dat ! 0)\<rparr>))"
proof -
  let ?d = "dat\<lparr>anchorPhaseId := id_p (phases dat ! 0)\<rparr>"
  have 1: "calculateSchedule hs dat = (Some (scheduleAt hs ?d 0), ?d)"
    using assms by (rule calculateSchedule_stale)
  have "findIndex (\<lambda>p. id_p p = anchorPhaseId ?d) (phases ?d) = Some 0"
    using assms(2) by (simp add: findIndex_first)
  moreover have "truthy (anchorDate ?d)" using assms(1) by simp
  ultimately have 2: "calculateSchedule hs ?d = (Some (scheduleAt hs ?d 0), ?d)"
    by (intro calculateSchedule_found)
  show ?thesis using 1 2 by simp
qed

theorem C5_witness:
  "truthy (anchorDate staleData) \<and> phases staleData \<noteq> []
   \<and> findIndex (\<lambda>p. id_p p = anchorPhaseId staleData) (phases staleData) = None
   \<and> calculateSchedule [] staleData
       = calculateSchedule [] (staleData\<lparr>anchorPhaseId := id_p (phases staleData ! 0)\<rparr>)
   \<and> (\<exists>res. calculateSchedule [] staleData
              = (Some res, staleData\<lparr>anchorPhaseId := id_p (phases staleData ! 0)\<rparr>))"
proof -
  have a: "truthy (anchorDate staleData)" by (simp add: staleData_def exData_def)
  have b: "phases staleData \<noteq> []" by (simp add: staleData_def exData_def exPhases_def)
  have c: "findIndex (\<lambda>p. id_p p = anchorPhaseId staleData) (phases staleData) = None"
    by (simp add: staleData_def exData_def exPhases_def mkPhase_def)
  show ?thesis using C5_anchor_self_heal [OF a b c, of "[]"] a b c by blast
qed

theorem C5_counterexample:
  "phases undatedData \<noteq> []
   \<and> findIndex (\<lambda>p. id_p p = anchorPhaseId undatedData) (phases undatedData) = None
   \<and> calculateSchedule [] undatedData = (None, undatedData)
   \<and> anchorPhaseId (snd (calculateSchedule [] undatedData)) \<noteq> id_p (phases undatedData ! 0)"
  by (simp add: calculateSchedule.simps undatedData_def staleData_def exData_def exPhases_def mkPhase_def)

subsection \<open>C6\<close>

text \<open>
  C6 (as amended). For a timeline whose phase list is empty the engine returns
  \<^verbatim>\<open>null\<close>, not an empty array, and leaves the data as it is.
\<close>

theorem C6_empty_phase_list:
  "phases dat = [] \<Longrightarrow> calculateSchedule hs dat = (None, dat)"
  by (simp add: calculateSchedule_null)

theorem C6_witness:
  "phases emptyData = [] \<and> calculateSchedule [] emptyData = (None, emptyData)"
proof -
  have "phases emptyData = []" by (simp add: emptyData_def)
  then show ?thesis using C6_empty_phase_list [of emptyData "[]"] by simp
qed

theorem C6_counterexample:
  "phases emptyData = [] \<and> fst (calculateSchedule [] emptyData) \<noteq> Some []"
  by (simp add: calculateSchedule.simps emptyData_def exData_def)

subsection \<open>C7\<close>

text \<open>
  C7 (as amended). For a parallel phase the engine takes the start from
  \<open>manualStartDate\<close>, or from the anchor date when that is missing, and the end from
  \<open>manualEndDate\<close>, or, when that is missing, from the resolved start plus \<open>days - 1\<close>
  working days. The reported \<open>days\<close> is the inclusive calendar-day span of the resolved
  dates; it does not depend on the stored \<open>days\<close> when \<open>manualEndDate\<close> is present. Both
  chains pass their running reference date over the phase unchanged.
\<close>

theorem C7_parallel_phase:
  assumes "isParallel p"
  shows "\<exists>it. processParallel hs dat p = Some it
     \<and> startDate it = (if truthy (manualStartDate p) then newDate (manualStartDate p)
                       else newDate (anchorDate dat))
     \<and> endDate it = (if truthy (manualEndDate p) then newDate (manualEndDate p)
                     else addBusinessDays hs (startDate it) (days p - 1))
     \<and> days it = getDaysDiff (startDate it) (endDate it)
     \<and> (\<forall>a b. startDate it = Day a \<and> endDate it = Day b \<longrightarrow> days it = Num (b - a + 1))
     \<and> (truthy (manualEndDate p) \<longrightarrow>
          (\<forall>n. map_option (\<lambda>i. (startDate i, endDate i, days i)) (processParallel hs dat (p\<lparr>days := n\<rparr>))
               = Some (startDate it, endDate it, days it)))
     \<and> (\<forall>ref ps. precedingChain hs dat ref (p # ps) = it # precedingChain hs dat ref ps)
     \<and> (\<forall>ref ps. succeedingChain hs dat ref (p # ps) = it # succeedingChain hs dat ref ps)"
proof -
  define s where "s = (if truthy (manualStartDate p) then newDate (manualStartDate p)
                       else newDate (anchorDate dat))"
  define e where "e = (if truthy (manualEndDate p) then newDate (manualEndDate p)
                       else addBusinessDays hs s (days p - 1))"
  define it where "it = spread p s e (getDaysDiff s e)"
  have pp: "processParallel hs dat p = Some it"
    using assms by (simp add: processParallel_def Let_def it_def s_def e_def)
  have sel: "startDate it = s" "endDate it = e" "days it = getDaysDiff s e"
    by (simp_all add: it_def)
  have span: "\<forall>a b. startDate it = Day a \<and> endDate it = Day b \<longrightarrow> days it = Num (b - a + 1)"
    using sel by (simp add: getDaysDiff_Day)
  have indep: "truthy (manualEndDate p) \<longrightarrow>
          (\<forall>n. map_option (\<lambda>i. (startDate i, endDate i, days i)) (processParallel hs dat (p\<lparr>days := n\<rparr>))
               = Some (startDate it, endDate it, days it))"
    using assms sel by (simp add: processParallel_def Let_def s_def e_def)
  have pre: "\<forall>ref ps. precedingChain hs dat ref (p # ps) = it # precedingChain hs dat ref ps"
    using pp by simp
  have suc: "\<forall>ref ps. succeedingChain hs dat ref (p # ps) = it # succeedingChain hs dat ref ps"
    using pp by simp
  show ?thesis
    using pp sel span indep pre suc unfolding s_def e_def by (intro exI [of _ it]) simp
qed

theorem C7_witness:
  "isParallel (exPhases ! 1)
   \<and> (\<exists>it. processParallel [] exData (exPhases ! 1) = Some it
        \<and> startDate it = Day 4 \<and> endDate it = Day 6 \<and> days it = Num 3
        \<and> precedingChain [] exData (Day 7) [exPhases ! 1, exPhases ! 0]
            = it # precedingChain [] exData (Day 7) [exPhases ! 0])"
proof -
  have a: "isParallel (exPhases ! 1)" by (simp add: exPhases_def mkPhase_def)
  have b: "manualStartDate (exPhases ! 1) = Ymd 4" "manualEndDate (exPhases ! 1) = NoDate"
    "days (exPhases ! 1) = 3"
    by (simp_all add: exPhases_def mkPhase_def)
  have c: "addBusinessDays [] (Day 4) 2 = Day 6"
    by (simp add: addBusinessDays.simps isWorkingDay.simps)
  obtain it where it: "processParallel [] exData (exPhases ! 1) = Some it"
    "startDate it = (if truthy (manualStartDate (exPhases ! 1)) then newDate (manualStartDate (exPhases ! 1))
                       else newDate (anchorDate exData))"
    "endDate it = (if truthy (manualEndDate (exPhases ! 1)) then newDate (manualEndDate (exPhases ! 1))
                     else addBusinessDays [] (startDate it) (days (exPhases ! 1) - 1))"
    "days it = getDaysDiff (startDate it) (endDate it)"
    "\<forall>ref ps. precedingChain [] exData ref (exPhases ! 1 # ps) = it # precedingChain [] exData ref ps"
    using C7_parallel_phase [OF a, of "[]" exData] by blast
  have "startDate it = Day 4" using it(2) b by simp
  moreover have "endDate it = Day 6" using it(3) b c \<open>startDate it = Day 4\<close> by simp
  moreover have "days it = Num 3" using it(4) calculation by simp
  ultimately show ?thesis using a it(1,5) by blast
qed

text \<open>
  The second example phase is parallel, starts on day 4, has no manual end date and stores
  3 days; the anchor date is day 8. Its end is day 6, two working days after its start,
  not the anchor date; and with 1 stored day instead of 3 the reported days are 1, not 3.
\<close>

theorem C7_counterexample:
  "isParallel (exPhases ! 1) \<and> \<not> truthy (manualEndDate (exPhases ! 1))
   \<and> newDate (anchorDate exData) = Day 8
   \<and> map_option endDate (processParallel [] exData (exPhases ! 1)) = Some (Day 6)
   \<and> map_option days (processParallel [] exData (exPhases ! 1)) = Some (Num 3)
   \<and> map_option days (processParallel [] exData ((exPhases ! 1)\<lparr>days := 1\<rparr>)) = Some (Num 1)"
  by (simp add: exPhases_def exData_def mkPhase_def processParallel_def spread_def Let_def
      addBusinessDays.simps isWorkingDay.simps)

subsection \<open>C8\<close>

text \<open>
  C8. The second example phase is parallel, starts on day 4 and stores 3 days. Resized by
  -5 days its stored days become 1, as the claim says, and its manual end date becomes
  day 2, the start plus the unclamped 3 - 5 = -2 days: before the start, and not the
  start plus the new duration of 1 day.
\<close>

theorem C8_resize_unclamped_end:
  "applyGanttChange exState (exDrag ''resize'' ''2'' 3) (- 5) =
     Inr (exState\<lparr>timelines := [\<lparr> id_t = ''t1'', name_t = ''Sprint 1'',
            data = exData\<lparr>phases := [exPhases ! 0, mkPhase ''2'' 1 True (Ymd 4) (Ymd 2),
                                      exPhases ! 2, exPhases ! 3]\<rparr> \<rparr>]\<rparr>,
          [SaveState, RenderPhases, UpdateSchedule])
   \<and> max 1 (3 + (- 5)) = (1 :: int) \<and> Ymd 2 \<noteq> Ymd (4 + max 1 (3 + (- 5)))"
  by (simp add: ex_defs run_defs)

subsection \<open>C9\<close>

text \<open>
  C9 (as amended). For a working day \<open>d\<close> and \<open>n \<ge> 0\<close>, with no holidays configured,
  subtracting \<open>n\<close> working days from \<open>d\<close> plus \<open>n\<close> working days gives \<open>d\<close> back, and
  exactly \<open>n\<close> working days lie after \<open>d\<close> up to and including the day reached.
\<close>

theorem C9_roundtrip_and_count:
  assumes "isWorkingDay [] (Day x)" and "0 \<le> n"
  shows "subBusinessDays [] (addBusinessDays [] (Day x) n) n = Day x
         \<and> (\<exists>y. addBusinessDays [] (Day x) n = Day y \<and> int (workingDaysIn [] (x + 1) y) = n)"
proof -
  have rt: "subBusinessDays [] (addBusinessDays [] (Day x) n) n = Day x"
  proof (cases "n = 0")
    case True
    then show ?thesis by (simp add: addBusinessDays_done subBusinessDays_done)
  next
    case False
    then have "0 < n" using assms by simp
    then have "subBusinessDays [] (addBusinessDays [] (Day x) n) n = ensureWorkingDayBackward [] (Day x)"
      by (rule sub_add_snap)
    also have "\<dots> = Day x" using assms(1) by (subst ensureWorkingDayBackward.simps) simp
    finally show ?thesis .
  qed
  obtain y where y: "addBusinessDays [] (Day x) n = Day y"
    using addBusinessDays_Day by blast
  have "int (workingDaysIn [] (x + 1) y) = n"
    using addBusinessDays_count_aux [OF refl assms(2) y] .
  then show ?thesis using rt y by simp
qed

text \<open>
  Monday 1970-01-05 is day 4. Seven working days later is Wednesday 1970-01-14, day 13.
\<close>

theorem C9_witness:
  "isWorkingDay [] (Day 4) \<and> (0::int) \<le> 7
   \<and> subBusinessDays [] (addBusinessDays [] (Day 4) 7) 7 = Day 4
   \<and> (\<exists>y. addBusinessDays [] (Day 4) 7 = Day y \<and> int (workingDaysIn [] (4 + 1) y) = 7)"
proof -
  have w: "isWorkingDay [] (Day 4)" by (simp add: isWorkingDay.simps)
  have n: "(0::int) \<le> 7" by simp
  show ?thesis using C9_roundtrip_and_count [OF w n] w by simp
qed

text \<open>
  The claim as stated counts the working days strictly between the two endpoints. From
  Monday, day 4, one working day forward is Tuesday, day 5, and no day lies strictly
  between them.
\<close>

theorem C9_counterexample:
  "isWorkingDay [] (Day 4) \<and> (0::int) \<le> 1 \<and> addBusinessDays [] (Day 4) 1 = Day 5
   \<and> int (workingDaysIn [] (4 + 1) (5 - 1)) \<noteq> 1"
  by (simp add: addBusinessDays.simps isWorkingDay.simps workingDaysIn_def)

subsection \<open>C10\<close>

text \<open>
  C10. A committed move of a phase other than the anchor, in a timeline whose anchor is
  found, leaves the application state as it was except for the fields \<open>isParallel\<close>,
  \<open>manualStartDate\<close> and \<open>manualEndDate\<close> of the moved phase; the stored \<open>days\<close> of that
  phase keeps its value.
\<close>

theorem C10_move_frame:
  assumes "deltaDays \<noteq> 0" and "type_d g = ''move''"
      and "findIndex (\<lambda>t. id_t t = timelineId g) (timelines st) = Some i"
      and "dat = data (timelines st ! i)"
      and "findIndex (\<lambda>p. id_p p = phaseId g) (phases dat) = Some j"
      and "phaseId g \<noteq> anchorPhaseId dat"
      and "findIndex (\<lambda>p. id_p p = anchorPhaseId dat) (phases dat) = Some k"
      and "applyGanttChange st g deltaDays = Inr (st', [SaveState, RenderPhases, UpdateSchedule])"
  shows "(\<exists>ms me. st' = st\<lparr>timelines := (timelines st)
             [i := (timelines st ! i)\<lparr>data := dat\<lparr>phases := (phases dat)
                [j := (phases dat ! j)\<lparr>isParallel := True, manualStartDate := ms,
                                        manualEndDate := me\<rparr>]\<rparr>\<rparr>]\<rparr>)
         \<and> days (phases (data (timelines st' ! i)) ! j) = days (phases dat ! j)"
proof -
  let ?hs = "globalHolidays st"
  have i: "i < length (timelines st)" using findIndex_Some [OF assms(3)] by simp
  have j: "j < length (phases dat)" using findIndex_Some [OF assms(5)] by simp
  obtain r d1 where r: "calculateSchedule ?hs dat = (r, d1)"
    "r = None \<longleftrightarrow> \<not> truthy (anchorDate dat) \<or> phases dat = []"
    using calculateSchedule_again [of ?hs dat] by blast
  show ?thesis
  proof (cases r)
    case None
    then have "applyGanttChange st g deltaDays = Inl TypeError"
      using move_error [OF assms(1,2,3,4,5,6)] r(1) by simp
    then show ?thesis using assms(8) by simp
  next
    case (Some sch)
    then have t: "truthy (anchorDate dat)" using r(2) by auto
    have "calculateSchedule ?hs dat = (Some (scheduleAt ?hs dat k), dat)"
      using t assms(7) by (rule calculateSchedule_found)
    then have d1: "d1 = dat" using r(1) by simp
    let ?shifted = "shiftSpan (tempSpan sch (phases dat ! j) j) deltaDays"
    let ?ph = "(phases dat ! j)\<lparr>isParallel := True, manualStartDate := iso_d (fst ?shifted),
                                 manualEndDate := iso_d (snd ?shifted)\<rparr>"
    have out: "applyGanttChange st g deltaDays =
           (if hasCollision dat (phaseId g) (fst ?shifted) (snd ?shifted) sch
            then Inr (storeData st i dat, [RenderGantt])
            else Inr (storeData st i (dat\<lparr>phases := (phases dat)[j := ?ph]\<rparr>),
                      [SaveState, RenderPhases, UpdateSchedule]))"
      using move_outcome [OF assms(1,2,3,4,5,6)] r(1) Some d1 by (simp add: Let_def)
    have st': "st' = storeData st i (dat\<lparr>phases := (phases dat)[j := ?ph]\<rparr>)"
      using out assms(8) by (simp split: if_splits)
    have "days (phases (data (timelines st' ! i)) ! j) = days (phases dat ! j)"
      using st' i j by (simp add: storeData_def)
    moreover have "st' = st\<lparr>timelines := (timelines st)
             [i := (timelines st ! i)\<lparr>data := dat\<lparr>phases := (phases dat)[j := ?ph]\<rparr>\<rparr>]\<rparr>"
      using st' by (simp add: storeData_def)
    ultimately show ?thesis by blast
  qed
qed

theorem C10_witness:
  "(1 :: int) \<noteq> 0 \<and> type_d (exDrag ''move'' ''1'' 3) = ''move''
   \<and> findIndex (\<lambda>t. id_t t = timelineId (exDrag ''move'' ''1'' 3)) (timelines exState) = Some 0
   \<and> exData = data (timelines exState ! 0)
   \<and> findIndex (\<lambda>p. id_p p = phaseId (exDrag ''move'' ''1'' 3)) (phases exData) = Some 0
   \<and> phaseId (exDrag ''move'' ''1'' 3) \<noteq> anchorPhaseId exData
   \<and> findIndex (\<lambda>p. id_p p = anchorPhaseId exData) (phases exData) = Some 2
   \<and> applyGanttChange exState (exDrag ''move'' ''1'' 3) 1
       = Inr (movedState, [SaveState, RenderPhases, UpdateSchedule])
   \<and> (\<exists>ms me. movedState = exState\<lparr>timelines := (timelines exState)
             [0 := (timelines exState ! 0)\<lparr>data := exData\<lparr>phases := (phases exData)
                [0 := (phases exData ! 0)\<lparr>isParallel := True, manualStartDate := ms,
                                        manualEndDate := me\<rparr>]\<rparr>\<rparr>]\<rparr>)
   \<and> days (phases (data (timelines movedState ! 0)) ! 0) = days (phases exData ! 0)"
proof -
  let ?g = "exDrag ''move'' ''1'' 3"
  have h1: "(1 :: int) \<noteq> 0" by simp
  have h2: "type_d ?g = ''move''" by (simp add: exDrag_def)
  have h3: "findIndex (\<lambda>t. id_t t = timelineId ?g) (timelines exState) = Some 0"
    by (simp add: exDrag_def exState_def)
  have h4: "exData = data (timelines exState ! 0)" by (simp add: exState_def)
  have h5: "findIndex (\<lambda>p. id_p p = phaseId ?g) (phases exData) = Some 0"
    by (simp add: ex_defs)
  have h6: "phaseId ?g \<noteq> anchorPhaseId exData" by (simp add: ex_defs)
  have h7: "findIndex (\<lambda>p. id_p p = anchorPhaseId exData) (phases exData) = Some 2"
    by (simp add: ex_defs)
  have h8: "applyGanttChange exState ?g 1 = Inr (movedState, [SaveState, RenderPhases, UpdateSchedule])"
    by (rule ex_accepted')
  show ?thesis
    using C10_move_frame [OF h1 h2 h3 h4 h5 h6 h7 h8] h1 h2 h3 h4 h5 h6 h7 h8 by blast
qed

end
